(* ===== verification/Prelude.thy ===== *)
theory Prelude
  imports Main "HOL-Library.Word"
begin

text \<open>
  Shared vocabulary of the development.  A Go \<open>string\<close> and a Go \<open>[]byte\<close> are both
  sequences of bytes; both are the HOL type \<open>string\<close> (a list of 8-bit characters), so
  every length counts bytes.  The theory holds the functions of Go's package
  \<open>strings\<close> that the driver calls on them, the result type of fallible code, and
  the collections of automation the component theories extend.
\<close>

type_synonym bytes = string

named_theorems str_simps \<open>equations about splitting, joining and searching byte strings\<close>
named_theorems evolve_intros \<open>every operation only extends the history of the world\<close>


section \<open>Byte values\<close>

definition byte :: "char \<Rightarrow> nat" where
  "byte c = of_char c"

lemma byte_less [simp]: "byte c < 256"
  using of_char_mod_256 [of c, where ?'a = nat] by (metis byte_def mod_less_divisor zero_less_numeral)

lemma byte_inj: "byte a = byte b \<longleftrightarrow> a = b"
  by (simp add: byte_def)

lemma byte_char_of [simp]: "n < 256 \<Longrightarrow> byte (char_of n) = n"
  by (simp add: byte_def)

abbreviation NUL :: char where "NUL \<equiv> CHR 0x00"
abbreviation LF :: char where "LF \<equiv> CHR 0x0A"
abbreviation CR :: char where "CR \<equiv> CHR 0x0D"
abbreviation TAB :: char where "TAB \<equiv> CHR 0x09"
abbreviation SP :: char where "SP \<equiv> CHR '' ''"
abbreviation COLON :: char where "COLON \<equiv> CHR '':''"


section \<open>Package strings\<close>

text \<open>\<open>strings.Split(s, sep)\<close> for a separator of one byte: never the empty list.\<close>

fun split_on :: "char \<Rightarrow> string \<Rightarrow> string list" where
  "split_on c [] = [[]]"
| "split_on c (x # xs) =
     (if x = c then [] # split_on c xs
      else (case split_on c xs of [] \<Rightarrow> [[x]] | y # ys \<Rightarrow> (x # y) # ys))"

text \<open>\<open>strings.Join(parts, sep)\<close>.\<close>

fun join_with :: "char \<Rightarrow> string list \<Rightarrow> string" where
  "join_with c [] = []"
| "join_with c [x] = x"
| "join_with c (x # y # ys) = x @ c # join_with c (y # ys)"

text \<open>\<open>strings.ReplaceAll(s, old, new)\<close> for single bytes.\<close>

definition replace_all :: "char \<Rightarrow> char \<Rightarrow> string \<Rightarrow> string" where
  "replace_all a b s = map (\<lambda>c. if c = a then b else c) s"

text \<open>\<open>strings.ContainsAny(s, chars)\<close> for ASCII \<open>chars\<close>.\<close>

definition contains_any :: "string \<Rightarrow> char list \<Rightarrow> bool" where
  "contains_any s cs \<longleftrightarrow> list_ex (\<lambda>c. c \<in> set cs) s"

text \<open>\<open>strings.HasPrefix(s, p)\<close>.\<close>

definition has_prefix :: "string \<Rightarrow> string \<Rightarrow> bool" where
  "has_prefix s p \<longleftrightarrow> take (length p) s = p"

lemma split_on_not_Nil [simp]: "split_on c s \<noteq> []"
  by (induction s) (auto split: list.splits)

lemma split_on_length_pos: "0 < length (split_on c s)"
  by simp

lemma join_split [str_simps]: "join_with c (split_on c s) = s"
proof (induction s)
  case Nil
  then show ?case by simp
next
  case (Cons x xs)
  obtain y ys where "split_on c xs = y # ys"
    by (meson neq_Nil_conv split_on_not_Nil)
  with Cons show ?case
    by (cases ys) auto
qed

lemma split_on_no_sep: "p \<in> set (split_on c s) \<Longrightarrow> c \<notin> set p"
  by (induction s arbitrary: p) (auto split: list.splits if_splits)

lemma split_on_subset: "p \<in> set (split_on c s) \<Longrightarrow> set p \<subseteq> set s"
  by (induction s arbitrary: p) (fastforce split: list.splits if_splits)+

lemma split_on_single [str_simps]: "c \<notin> set s \<Longrightarrow> split_on c s = [s]"
  by (induction s) auto

lemma split_on_append [str_simps]:
  "c \<notin> set s \<Longrightarrow> split_on c (s @ c # t) = s # split_on c t"
  by (induction s) auto

lemma split_join [str_simps]:
  "ps \<noteq> [] \<Longrightarrow> (\<And>p. p \<in> set ps \<Longrightarrow> c \<notin> set p) \<Longrightarrow> split_on c (join_with c ps) = ps"
  by (induction c ps rule: join_with.induct) (auto simp: str_simps)

lemma set_join_with: "set (join_with c ps) \<subseteq> insert c (\<Union> (set ` set ps))"
  by (induction c ps rule: join_with.induct) auto

lemma length_join_with: "length (join_with c ps) = sum_list (map length ps) + (length ps - 1)"
  by (induction c ps rule: join_with.induct) auto

lemma replace_all_append [simp]: "replace_all a b (s @ t) = replace_all a b s @ replace_all a b t"
  by (simp add: replace_all_def)

lemma replace_all_Cons [simp]:
  "replace_all a b (x # s) = (if x = a then b else x) # replace_all a b s"
  by (simp add: replace_all_def)

lemma replace_all_Nil [simp]: "replace_all a b [] = []"
  by (simp add: replace_all_def)

lemma length_replace_all [simp]: "length (replace_all a b s) = length s"
  by (simp add: replace_all_def)

lemma replace_all_idle [str_simps]: "a \<notin> set s \<Longrightarrow> replace_all a b s = s"
  by (induction s) auto

lemma replace_all_join [str_simps]:
  "(\<And>p. p \<in> set ps \<Longrightarrow> a \<notin> set p) \<Longrightarrow> replace_all a b (join_with a ps) = join_with b ps"
  by (induction a ps rule: join_with.induct) (auto simp: replace_all_idle)

lemma contains_any_iff: "contains_any s cs \<longleftrightarrow> (\<exists>c \<in> set s. c \<in> set cs)"
  by (auto simp: contains_any_def list_ex_iff)

lemma contains_any_append [simp]:
  "contains_any (s @ t) cs \<longleftrightarrow> contains_any s cs \<or> contains_any t cs"
  by (auto simp: contains_any_iff)

lemma has_prefix_iff: "has_prefix s p \<longleftrightarrow> (\<exists>t. s = p @ t)"
  by (metis append_eq_conv_conj append_take_drop_id has_prefix_def)


section \<open>Fixed-size arrays\<close>

text \<open>\<open>copy(a[:], s)\<close> into a zeroed Go array of \<open>n\<close> bytes.\<close>

definition fit :: "nat \<Rightarrow> bytes \<Rightarrow> bytes" where
  "fit n s = take n (s @ replicate n NUL)"

lemma length_fit [simp]: "length (fit n s) = n"
  by (simp add: fit_def)

lemma fit_idle [simp]: "length s = n \<Longrightarrow> fit n s = s"
  by (simp add: fit_def)


section \<open>Results\<close>

text \<open>
  A Go function with results \<open>(T, error)\<close> returns \<open>Inl e\<close> where its error is non-nil
  and \<open>Inr v\<close> where it is nil; a function with the single result \<open>error\<close> returns an
  option, \<open>None\<close> for nil.
\<close>

definition is_ok :: "'e + 'a \<Rightarrow> bool" where
  "is_ok r \<longleftrightarrow> (case r of Inl _ \<Rightarrow> False | Inr _ \<Rightarrow> True)"

lemma is_ok_simps [simp]: "is_ok (Inr v)" "\<not> is_ok (Inl e)"
  by (simp_all add: is_ok_def)

lemma is_ok_iff: "is_ok r \<longleftrightarrow> (\<exists>v. r = Inr v)"
  by (cases r) auto

lemmas res_splits = prod.splits sum.splits option.splits if_splits
lemmas res_split_asm = prod.split_asm sum.split_asm option.split_asm if_split_asm

end
