(* ===== verification/Errors.thy ===== *)
theory Errors
  imports Prelude
begin

text \<open>
  \<open>errors.go\<close>: the values of Go's \<open>error\<close> interface that occur in the driver, the
  sentinels, and \<open>errors.Is\<close> over them.
\<close>

text \<open>
  \<open>KErr kind message cause\<close> is a pointer to the struct \<open>Error\<close>; the two context errors
  are those of package \<open>context\<close>; \<open>NetErr t s\<close> is any error of \<open>net\<close>, \<open>tls\<close>, \<open>bufio\<close>
  or \<open>io\<close> with text \<open>s\<close>, where \<open>t\<close> tells whether \<open>errors.As\<close> finds a \<open>net.Error\<close>
  in it that reports a timeout; \<open>PlainErr s\<close> is a value made by \<open>errors.New\<close>.
\<close>

datatype go_error =
    KErr (err_kind: string) (err_message: string) (err_cause: "go_error option")
  | Canceled
  | DeadlineExceeded
  | NetErr bool string
  | PlainErr string

definition ErrConnection :: go_error where
  "ErrConnection = KErr ''connection'' ''koutendb: connection failed'' None"
definition ErrTimeout :: go_error where
  "ErrTimeout = KErr ''timeout'' ''koutendb: operation timed out'' None"
definition ErrAuthentication :: go_error where
  "ErrAuthentication = KErr ''authentication'' ''koutendb: authentication rejected'' None"
definition ErrProtocol :: go_error where
  "ErrProtocol = KErr ''protocol'' ''koutendb: invalid wire response'' None"
definition ErrVersionMismatch :: go_error where
  "ErrVersionMismatch = KErr ''version'' ''koutendb: unsupported wire version'' None"
definition ErrServer :: go_error where
  "ErrServer = KErr ''server'' ''koutendb: server rejected request'' None"
definition ErrIndeterminateWrite :: go_error where
  "ErrIndeterminateWrite = KErr ''indeterminate'' ''koutendb: write outcome unknown; do not automatically retry'' None"
definition ErrInvalidInput :: go_error where
  "ErrInvalidInput = KErr ''input'' ''koutendb: invalid option or request'' None"
definition ErrClosed :: go_error where
  "ErrClosed = KErr ''closed'' ''koutendb: client closed'' None"

lemmas sentinel_defs = ErrConnection_def ErrTimeout_def ErrAuthentication_def ErrProtocol_def
  ErrVersionMismatch_def ErrServer_def ErrIndeterminateWrite_def ErrInvalidInput_def ErrClosed_def

definition sentinels :: "go_error list" where
  "sentinels = [ErrConnection, ErrTimeout, ErrAuthentication, ErrProtocol, ErrVersionMismatch,
     ErrServer, ErrIndeterminateWrite, ErrInvalidInput, ErrClosed]"

text \<open>The method \<open>Error\<close>.\<close>

fun Error :: "go_error \<Rightarrow> string" where
  "Error (KErr _ m _) = m"
| "Error Canceled = ''context canceled''"
| "Error DeadlineExceeded = ''context deadline exceeded''"
| "Error (NetErr _ s) = s"
| "Error (PlainErr s) = s"

text \<open>The method \<open>Unwrap\<close>.\<close>

fun Unwrap :: "go_error \<Rightarrow> go_error option" where
  "Unwrap (KErr _ _ c) = c"
| "Unwrap _ = None"

text \<open>The method \<open>Is\<close> of \<open>*Error\<close>; the other error values have none.\<close>

fun Is :: "go_error \<Rightarrow> go_error \<Rightarrow> bool" where
  "Is (KErr k _ _) (KErr k' _ _) = (k = k' \<or> (k = ''closed'' \<and> k' = ''connection''))"
| "Is _ _ = False"

text \<open>\<open>errors.Is(err, target)\<close> walks the chain of causes.\<close>

fun errors_Is :: "go_error \<Rightarrow> go_error \<Rightarrow> bool" where
  "errors_Is (KErr k m (Some c)) t = (KErr k m (Some c) = t \<or> Is (KErr k m (Some c)) t \<or> errors_Is c t)"
| "errors_Is e t = (e = t \<or> Is e t)"

lemma errors_Is_unfold:
  "errors_Is e t \<longleftrightarrow> e = t \<or> Is e t \<or> (\<exists>c. Unwrap e = Some c \<and> errors_Is c t)"
  by (cases e) (auto split: option.splits, (metis errors_Is.simps(1,2) option.exhaust option.inject)+)

lemma errors_Is_refl [simp]: "errors_Is e e"
  by (subst errors_Is_unfold) simp

text \<open>A wrapped error is still found through its cause.\<close>

lemma errors_Is_cause: "errors_Is c t \<Longrightarrow> errors_Is (KErr k m (Some c)) t"
  by simp

text \<open>Is the value a \<open>*Error\<close>?  The type assertion \<open>err.(*Error)\<close> of the exchange.\<close>

definition is_KErr :: "go_error \<Rightarrow> bool" where
  "is_KErr e \<longleftrightarrow> (case e of KErr _ _ _ \<Rightarrow> True | _ \<Rightarrow> False)"

lemma is_KErr_simps [simp]:
  "is_KErr (KErr k m c)" "\<not> is_KErr Canceled" "\<not> is_KErr DeadlineExceeded"
  "\<not> is_KErr (NetErr b s)" "\<not> is_KErr (PlainErr s)"
  by (simp_all add: is_KErr_def)

lemma sentinels_KErr [simp]:
  "is_KErr ErrConnection" "is_KErr ErrTimeout" "is_KErr ErrAuthentication" "is_KErr ErrProtocol"
  "is_KErr ErrVersionMismatch" "is_KErr ErrServer" "is_KErr ErrIndeterminateWrite"
  "is_KErr ErrInvalidInput" "is_KErr ErrClosed"
  by (simp_all add: sentinel_defs)

text \<open>The sentinels and the context errors are pairwise different.\<close>

lemma sentinels_neq [simp]:
  "ErrConnection \<noteq> ErrTimeout" "ErrConnection \<noteq> ErrAuthentication"
  "ErrConnection \<noteq> ErrProtocol" "ErrConnection \<noteq> ErrVersionMismatch"
  "ErrConnection \<noteq> ErrServer" "ErrConnection \<noteq> ErrIndeterminateWrite"
  "ErrConnection \<noteq> ErrInvalidInput" "ErrConnection \<noteq> ErrClosed"
  "ErrConnection \<noteq> Canceled" "Canceled \<noteq> ErrConnection"
  "ErrConnection \<noteq> DeadlineExceeded" "DeadlineExceeded \<noteq> ErrConnection"
  "ErrTimeout \<noteq> ErrConnection" "ErrTimeout \<noteq> ErrAuthentication"
  "ErrTimeout \<noteq> ErrProtocol" "ErrTimeout \<noteq> ErrVersionMismatch"
  "ErrTimeout \<noteq> ErrServer" "ErrTimeout \<noteq> ErrIndeterminateWrite"
  "ErrTimeout \<noteq> ErrInvalidInput" "ErrTimeout \<noteq> ErrClosed"
  "ErrTimeout \<noteq> Canceled" "Canceled \<noteq> ErrTimeout"
  "ErrTimeout \<noteq> DeadlineExceeded" "DeadlineExceeded \<noteq> ErrTimeout"
  "ErrAuthentication \<noteq> ErrConnection" "ErrAuthentication \<noteq> ErrTimeout"
  "ErrAuthentication \<noteq> ErrProtocol" "ErrAuthentication \<noteq> ErrVersionMismatch"
  "ErrAuthentication \<noteq> ErrServer" "ErrAuthentication \<noteq> ErrIndeterminateWrite"
  "ErrAuthentication \<noteq> ErrInvalidInput" "ErrAuthentication \<noteq> ErrClosed"
  "ErrAuthentication \<noteq> Canceled" "Canceled \<noteq> ErrAuthentication"
  "ErrAuthentication \<noteq> DeadlineExceeded" "DeadlineExceeded \<noteq> ErrAuthentication"
  "ErrProtocol \<noteq> ErrConnection" "ErrProtocol \<noteq> ErrTimeout"
  "ErrProtocol \<noteq> ErrAuthentication" "ErrProtocol \<noteq> ErrVersionMismatch"
  "ErrProtocol \<noteq> ErrServer" "ErrProtocol \<noteq> ErrIndeterminateWrite"
  "ErrProtocol \<noteq> ErrInvalidInput" "ErrProtocol \<noteq> ErrClosed"
  "ErrProtocol \<noteq> Canceled" "Canceled \<noteq> ErrProtocol"
  "ErrProtocol \<noteq> DeadlineExceeded" "DeadlineExceeded \<noteq> ErrProtocol"
  "ErrVersionMismatch \<noteq> ErrConnection" "ErrVersionMismatch \<noteq> ErrTimeout"
  "ErrVersionMismatch \<noteq> ErrAuthentication" "ErrVersionMismatch \<noteq> ErrProtocol"
  "ErrVersionMismatch \<noteq> ErrServer" "ErrVersionMismatch \<noteq> ErrIndeterminateWrite"
  "ErrVersionMismatch \<noteq> ErrInvalidInput" "ErrVersionMismatch \<noteq> ErrClosed"
  "ErrVersionMismatch \<noteq> Canceled" "Canceled \<noteq> ErrVersionMismatch"
  "ErrVersionMismatch \<noteq> DeadlineExceeded" "DeadlineExceeded \<noteq> ErrVersionMismatch"
  "ErrServer \<noteq> ErrConnection" "ErrServer \<noteq> ErrTimeout"
  "ErrServer \<noteq> ErrAuthentication" "ErrServer \<noteq> ErrProtocol"
  "ErrServer \<noteq> ErrVersionMismatch" "ErrServer \<noteq> ErrIndeterminateWrite"
  "ErrServer \<noteq> ErrInvalidInput" "ErrServer \<noteq> ErrClosed" "ErrServer \<noteq> Canceled"
  "Canceled \<noteq> ErrServer" "ErrServer \<noteq> DeadlineExceeded"
  "DeadlineExceeded \<noteq> ErrServer" "ErrIndeterminateWrite \<noteq> ErrConnection"
  "ErrIndeterminateWrite \<noteq> ErrTimeout" "ErrIndeterminateWrite \<noteq> ErrAuthentication"
  "ErrIndeterminateWrite \<noteq> ErrProtocol" "ErrIndeterminateWrite \<noteq> ErrVersionMismatch"
  "ErrIndeterminateWrite \<noteq> ErrServer" "ErrIndeterminateWrite \<noteq> ErrInvalidInput"
  "ErrIndeterminateWrite \<noteq> ErrClosed" "ErrIndeterminateWrite \<noteq> Canceled"
  "Canceled \<noteq> ErrIndeterminateWrite" "ErrIndeterminateWrite \<noteq> DeadlineExceeded"
  "DeadlineExceeded \<noteq> ErrIndeterminateWrite" "ErrInvalidInput \<noteq> ErrConnection"
  "ErrInvalidInput \<noteq> ErrTimeout" "ErrInvalidInput \<noteq> ErrAuthentication"
  "ErrInvalidInput \<noteq> ErrProtocol" "ErrInvalidInput \<noteq> ErrVersionMismatch"
  "ErrInvalidInput \<noteq> ErrServer" "ErrInvalidInput \<noteq> ErrIndeterminateWrite"
  "ErrInvalidInput \<noteq> ErrClosed" "ErrInvalidInput \<noteq> Canceled"
  "Canceled \<noteq> ErrInvalidInput" "ErrInvalidInput \<noteq> DeadlineExceeded"
  "DeadlineExceeded \<noteq> ErrInvalidInput" "ErrClosed \<noteq> ErrConnection"
  "ErrClosed \<noteq> ErrTimeout" "ErrClosed \<noteq> ErrAuthentication"
  "ErrClosed \<noteq> ErrProtocol" "ErrClosed \<noteq> ErrVersionMismatch"
  "ErrClosed \<noteq> ErrServer" "ErrClosed \<noteq> ErrIndeterminateWrite"
  "ErrClosed \<noteq> ErrInvalidInput" "ErrClosed \<noteq> Canceled" "Canceled \<noteq> ErrClosed"
  "ErrClosed \<noteq> DeadlineExceeded" "DeadlineExceeded \<noteq> ErrClosed"
  by (simp_all add: sentinel_defs)

text \<open>\<open>errors.Is\<close> between the sentinels: equality, and \<open>closed\<close> counts as \<open>connection\<close>.\<close>

lemma errors_Is_sentinels:
  "e \<in> set sentinels \<Longrightarrow> t \<in> set sentinels \<Longrightarrow>
   errors_Is e t \<longleftrightarrow> e = t \<or> (e = ErrClosed \<and> t = ErrConnection)"
proof -
  have "list_all (\<lambda>e. list_all (\<lambda>t.
      errors_Is e t = (e = t \<or> (e = ErrClosed \<and> t = ErrConnection))) sentinels) sentinels"
    by code_simp
  moreover assume "e \<in> set sentinels" "t \<in> set sentinels"
  ultimately show ?thesis by (auto simp: list_all_iff)
qed

text \<open>
  The errors the public operations may return: a sentinel, a context error, or an
  indeterminate write wrapping one of these.  None of them carries transport or server
  text.
\<close>

definition plain_public :: "go_error \<Rightarrow> bool" where
  "plain_public e \<longleftrightarrow> e \<in> set sentinels \<or> e = Canceled \<or> e = DeadlineExceeded"

definition public_error :: "go_error \<Rightarrow> bool" where
  "public_error e \<longleftrightarrow> plain_public e \<or>
     (\<exists>c. plain_public c \<and> e = KErr (err_kind ErrIndeterminateWrite) (err_message ErrIndeterminateWrite) (Some c))"

lemma plain_public_simps [simp]:
  "plain_public ErrConnection" "plain_public ErrTimeout" "plain_public ErrAuthentication"
  "plain_public ErrProtocol" "plain_public ErrVersionMismatch" "plain_public ErrServer"
  "plain_public ErrIndeterminateWrite" "plain_public ErrInvalidInput" "plain_public ErrClosed"
  "plain_public Canceled" "plain_public DeadlineExceeded"
  by (simp_all add: plain_public_def sentinels_def)

lemma plain_public_public: "plain_public e \<Longrightarrow> public_error e"
  by (simp add: public_error_def)

end
