(* ===== verification/World.thy ===== *)
theory World
  imports Errors "HOL-Library.Sublist"
begin

text \<open>
  What the driver meets outside itself: clocks, contexts, sockets and the random source.
  Everything the environment decides is read from a script in the state \<open>world\<close>; a
  statement about all worlds is one about every behaviour of the network, the server,
  the scheduler and the callers that cancel a context.  What the driver does to the
  outside is recorded in histories.
\<close>


section \<open>Contexts\<close>

text \<open>
  A context may carry a deadline, and it is done from some instant on, for one of two
  reasons.  Time is in nanoseconds.  The instant a deadline context is done may lie
  after its nominal deadline (timers fire late).
\<close>

datatype ctx_cause = CauseCancel | CauseDeadline

record ctx =
  ctx_deadline :: "int option"
  ctx_done :: "(int \<times> ctx_cause) option"

definition background :: ctx where
  "background = \<lparr>ctx_deadline = None, ctx_done = None\<rparr>"

definition cause_err :: "ctx_cause \<Rightarrow> go_error" where
  "cause_err c = (case c of CauseCancel \<Rightarrow> Canceled | CauseDeadline \<Rightarrow> DeadlineExceeded)"

text \<open>\<open>ctx.Err()\<close> at an instant.\<close>

definition ctx_err_at :: "ctx \<Rightarrow> int \<Rightarrow> go_error option" where
  "ctx_err_at c now =
     (case ctx_done c of None \<Rightarrow> None
      | Some (t, cause) \<Rightarrow> if t \<le> now then Some (cause_err cause) else None)"

text \<open>\<open>context.WithTimeout(ctx, d)\<close> at the instant \<open>now\<close>.\<close>

definition with_timeout :: "ctx \<Rightarrow> int \<Rightarrow> int \<Rightarrow> ctx" where
  "with_timeout c d now =
     (case ctx_deadline c of
        Some cur \<Rightarrow> if cur < now + d then c
          else \<lparr>ctx_deadline = Some (now + d),
            ctx_done = (case ctx_done c of
               Some (t, cause) \<Rightarrow> if t < now + d then Some (t, cause) else Some (now + d, CauseDeadline)
             | None \<Rightarrow> Some (now + d, CauseDeadline))\<rparr>
      | None \<Rightarrow> \<lparr>ctx_deadline = Some (now + d),
            ctx_done = (case ctx_done c of
               Some (t, cause) \<Rightarrow> if t < now + d then Some (t, cause) else Some (now + d, CauseDeadline)
             | None \<Rightarrow> Some (now + d, CauseDeadline))\<rparr>)"

lemma cause_err_public [simp]: "plain_public (cause_err c)"
  by (cases c) (simp_all add: cause_err_def)

lemma ctx_err_at_public: "ctx_err_at c t = Some e \<Longrightarrow> e = Canceled \<or> e = DeadlineExceeded"
  by (auto simp: ctx_err_at_def cause_err_def split: option.splits prod.splits if_splits ctx_cause.splits)

text \<open>Once done, a context stays done with the same error.\<close>

lemma ctx_err_at_mono: "ctx_err_at c t = Some e \<Longrightarrow> t \<le> t' \<Longrightarrow> ctx_err_at c t' = Some e"
  by (auto simp: ctx_err_at_def split: option.splits prod.splits if_splits)

lemma ctx_err_at_background [simp]: "ctx_err_at background t = None"
  by (simp add: ctx_err_at_def background_def)

text \<open>A derived context is done whenever its parent is, as long as the parent is done no
  later than its own timer; its own expiry is a deadline error.\<close>

lemma with_timeout_err:
  "ctx_err_at (with_timeout c d now) t = Some e \<Longrightarrow>
     ctx_err_at c t = Some e \<or> (e = DeadlineExceeded \<and> now + d \<le> t)"
  by (auto simp: with_timeout_def ctx_err_at_def cause_err_def split: option.splits prod.splits if_splits)

lemma with_timeout_deadline:
  "\<exists>x. ctx_deadline (with_timeout c d now) = Some x \<and> x \<le> now + d
     \<and> (\<forall>y. ctx_deadline c = Some y \<longrightarrow> x \<le> y)"
  by (auto simp: with_timeout_def split: option.splits)


section \<open>The world\<close>

text \<open>
  A transport error is what a \<open>NetErr\<close> carries.  Connections are numbered by the dials
  that made them.  Scripts: \<open>w_ticks\<close>, the time that passes before each observation;
  \<open>w_dials\<close>, \<open>w_tls\<close> and \<open>w_arms\<close>, how each dial, TLS handshake and deadline call ends;
  \<open>w_writes\<close>, how many bytes each \<open>Write\<close> takes and its error; \<open>w_inbox i\<close>, what each
  further byte read on connection \<open>i\<close> brings; \<open>w_rands\<close>, the random nonces.  An
  exhausted script means: no time passes, the dial fails, the other calls succeed, a
  write takes the whole buffer, a read finds the end of the stream, and the random source
  fails.  Histories: dialed addresses, TLS handshakes, bytes accepted by \<open>Write\<close>, deadlines set, closed
  connections.
\<close>

type_synonym net_err = "bool \<times> string"
type_synonym rx = "net_err + char"

record world =
  w_clock :: int
  w_ticks :: "nat list"
  w_dials :: "net_err option list"
  w_tls :: "net_err option list"
  w_arms :: "net_err option list"
  w_writes :: "(nat \<times> net_err option) list"
  w_inbox :: "nat \<Rightarrow> rx list"
  w_rands :: "bytes option list"
  w_next :: nat
  w_dialed :: "(nat \<times> string) list"
  w_verified :: "(nat \<times> string \<times> bool) list"
  w_sent :: "(nat \<times> bytes) list"
  w_armed :: "(nat \<times> int) list"
  w_closed :: "nat list"

definition net_error :: "net_err \<Rightarrow> go_error" where
  "net_error e = NetErr (fst e) (snd e)"

definition tick :: "world \<Rightarrow> world" where
  "tick w = (case w_ticks w of [] \<Rightarrow> w
     | t # ts \<Rightarrow> w\<lparr>w_clock := w_clock w + int t, w_ticks := ts\<rparr>)"

text \<open>One call of \<open>ctx.Err()\<close>.  Where the source asks twice in a row, the answer of the
  first call stands for both: a context that is done stays done.\<close>

definition ctx_Err :: "ctx \<Rightarrow> world \<Rightarrow> go_error option \<times> world" where
  "ctx_Err c w = (let w1 = tick w in (ctx_err_at c (w_clock w1), w1))"

definition net_dial :: "string \<Rightarrow> world \<Rightarrow> (go_error + nat) \<times> world" where
  "net_dial addr w =
     (let w1 = tick w in
      case w_dials w1 of
        [] \<Rightarrow> (Inl (NetErr False ''dial''), w1)
      | Some e # ds \<Rightarrow> (Inl (net_error e), w1\<lparr>w_dials := ds\<rparr>)
      | None # ds \<Rightarrow> (Inr (w_next w1),
          w1\<lparr>w_dials := ds, w_next := Suc (w_next w1), w_dialed := w_dialed w1 @ [(w_next w1, addr)]\<rparr>))"

text \<open>\<open>HandshakeContext\<close> on connection \<open>i\<close>: the name the certificate is checked against and
  whether checking is skipped are recorded.\<close>

definition tls_handshake :: "nat \<Rightarrow> string \<Rightarrow> bool \<Rightarrow> world \<Rightarrow> go_error option \<times> world" where
  "tls_handshake i name skip w =
     (let w0 = tick w; w1 = w0\<lparr>w_verified := w_verified w0 @ [(i, name, skip)]\<rparr> in
      case w_tls w1 of [] \<Rightarrow> (None, w1)
      | e # es \<Rightarrow> (map_option net_error e, w1\<lparr>w_tls := es\<rparr>))"

text \<open>\<open>SetReadDeadline\<close> and \<open>SetWriteDeadline\<close>.\<close>

definition conn_arm :: "nat \<Rightarrow> int \<Rightarrow> world \<Rightarrow> go_error option \<times> world" where
  "conn_arm i t w =
     (let w1 = w\<lparr>w_armed := w_armed w @ [(i, t)]\<rparr> in
      case w_arms w1 of [] \<Rightarrow> (None, w1)
      | e # es \<Rightarrow> (map_option net_error e, w1\<lparr>w_arms := es\<rparr>))"

text \<open>\<open>conn.Write(frame)\<close> takes at most the whole frame.\<close>

definition conn_write :: "nat \<Rightarrow> bytes \<Rightarrow> world \<Rightarrow> (nat \<times> go_error option) \<times> world" where
  "conn_write i frame w =
     (let w1 = tick w in
      case w_writes w1 of
        [] \<Rightarrow> ((length frame, None), w1\<lparr>w_sent := w_sent w1 @ [(i, frame)]\<rparr>)
      | (n, e) # ws \<Rightarrow> (let m = min n (length frame) in
          ((m, map_option net_error e), w1\<lparr>w_writes := ws, w_sent := w_sent w1 @ [(i, take m frame)]\<rparr>)))"

text \<open>\<open>reader.ReadByte()\<close> of the buffered reader on connection \<open>i\<close>.\<close>

definition read_byte :: "nat \<Rightarrow> world \<Rightarrow> (go_error + char) \<times> world" where
  "read_byte i w =
     (let w1 = tick w in
      case w_inbox w1 i of
        [] \<Rightarrow> (Inl (NetErr False ''EOF''), w1)
      | x # xs \<Rightarrow> (case x of Inl e \<Rightarrow> Inl (net_error e) | Inr b \<Rightarrow> Inr b,
          w1\<lparr>w_inbox := (w_inbox w1)(i := xs)\<rparr>))"

text \<open>\<open>io.ReadFull(reader, b)\<close> for a buffer of \<open>n\<close> bytes.\<close>

fun read_full :: "nat \<Rightarrow> nat \<Rightarrow> world \<Rightarrow> (go_error + bytes) \<times> world" where
  "read_full i 0 w = (Inr [], w)"
| "read_full i (Suc n) w =
     (case read_byte i w of
        (Inl e, w1) \<Rightarrow> (Inl e, w1)
      | (Inr b, w1) \<Rightarrow> (case read_full i n w1 of
          (Inl e, w2) \<Rightarrow> (Inl e, w2)
        | (Inr bs, w2) \<Rightarrow> (Inr (b # bs), w2)))"

definition conn_close :: "nat \<Rightarrow> world \<Rightarrow> world" where
  "conn_close i w = w\<lparr>w_closed := w_closed w @ [i]\<rparr>"

text \<open>\<open>rand.Read\<close> into a nonce of 24 bytes.\<close>

definition rand_nonce :: "world \<Rightarrow> bytes option \<times> world" where
  "rand_nonce w =
     (case w_rands w of [] \<Rightarrow> (None, w)
      | r # rs \<Rightarrow> (map_option (fit 24) r, w\<lparr>w_rands := rs\<rparr>))"

text \<open>\<open>ioError(ctx, err)\<close> of \<open>errors.go\<close>: the context's error wins, then a timeout,
  everything else is a failed connection.\<close>

definition ioError :: "ctx \<Rightarrow> go_error \<Rightarrow> world \<Rightarrow> go_error \<times> world" where
  "ioError c err w =
     (case ctx_Err c w of
        (Some e, w1) \<Rightarrow> (e, w1)
      | (None, w1) \<Rightarrow>
          (if (case err of NetErr t _ \<Rightarrow> t | DeadlineExceeded \<Rightarrow> True | _ \<Rightarrow> False) then ErrTimeout
           else ErrConnection, w1))"


text \<open>The errors of a failed or interrupted transport, as the callers see them.\<close>

definition io_class :: "go_error \<Rightarrow> bool" where
  "io_class e \<longleftrightarrow> e = Canceled \<or> e = DeadlineExceeded \<or> e = ErrTimeout \<or> e = ErrConnection"

lemma io_class_simps [simp]:
  "io_class Canceled" "io_class DeadlineExceeded" "io_class ErrTimeout" "io_class ErrConnection"
  by (simp_all add: io_class_def)

lemma io_class_public: "io_class e \<Longrightarrow> plain_public e"
  by (auto simp: io_class_def)

lemma ctx_Err_class: "ctx_Err c w = (Some e, w1) \<Longrightarrow> io_class e"
  using ctx_err_at_public [of c "w_clock (tick w)" e] by (auto simp: ctx_Err_def Let_def)

lemma ioError_class: "ioError c e w = (r, w1) \<Longrightarrow> io_class r"
  by (auto simp: ioError_def dest: ctx_Err_class split: prod.splits option.splits)


section \<open>The world only moves on\<close>

text \<open>The instant at which the script of passing time runs out: nothing happens later.\<close>

definition horizon :: "world \<Rightarrow> int" where
  "horizon w = w_clock w + int (sum_list (w_ticks w))"

lemma horizon_tick [simp]: "horizon (tick w) = horizon w"
  by (simp add: horizon_def tick_def split: list.split)

lemma horizon_upd [simp]:
  "horizon (w\<lparr>w_dials := a\<rparr>) = horizon w" "horizon (w\<lparr>w_tls := b\<rparr>) = horizon w"
  "horizon (w\<lparr>w_arms := b\<rparr>) = horizon w" "horizon (w\<lparr>w_writes := d\<rparr>) = horizon w"
  "horizon (w\<lparr>w_inbox := e\<rparr>) = horizon w" "horizon (w\<lparr>w_rands := f\<rparr>) = horizon w"
  "horizon (w\<lparr>w_next := g\<rparr>) = horizon w" "horizon (w\<lparr>w_dialed := h\<rparr>) = horizon w"
  "horizon (w\<lparr>w_verified := i\<rparr>) = horizon w" "horizon (w\<lparr>w_sent := j\<rparr>) = horizon w"
  "horizon (w\<lparr>w_armed := k\<rparr>) = horizon w" "horizon (w\<lparr>w_closed := l\<rparr>) = horizon w"
  by (simp_all add: horizon_def)

text \<open>Clocks advance along their script, histories grow, scripts of unread bytes shrink,
  connection numbers are never reused.\<close>

definition evolves :: "world \<Rightarrow> world \<Rightarrow> bool" where
  "evolves w w' \<longleftrightarrow>
     w_clock w \<le> w_clock w' \<and> horizon w' = horizon w \<and> w_next w \<le> w_next w' \<and>
     prefix (w_dialed w) (w_dialed w') \<and> prefix (w_verified w) (w_verified w') \<and> prefix (w_sent w) (w_sent w') \<and>
     prefix (w_armed w) (w_armed w') \<and> prefix (w_closed w) (w_closed w') \<and>
     (\<forall>i. suffix (w_inbox w' i) (w_inbox w i))"

lemma evolves_refl [simp, evolve_intros]: "evolves w w"
  by (simp add: evolves_def)

lemma evolves_trans: "evolves a b \<Longrightarrow> evolves b c \<Longrightarrow> evolves a c"
  unfolding evolves_def by (metis order_trans prefix_order.trans suffix_order.trans)

lemma evolves_clock: "evolves a b \<Longrightarrow> w_clock a \<le> w_clock b"
  by (simp add: evolves_def)

lemma tick_clock: "w_clock w \<le> w_clock (tick w)"
  by (simp add: tick_def split: list.split)

lemma tick_simps [simp]:
  "w_next (tick w) = w_next w" "w_dialed (tick w) = w_dialed w" "w_sent (tick w) = w_sent w"
  "w_armed (tick w) = w_armed w" "w_closed (tick w) = w_closed w" "w_inbox (tick w) = w_inbox w"
  "w_dials (tick w) = w_dials w" "w_writes (tick w) = w_writes w" "w_rands (tick w) = w_rands w"
  "w_arms (tick w) = w_arms w" "w_tls (tick w) = w_tls w" "w_verified (tick w) = w_verified w"
  by (simp_all add: tick_def split: list.splits)

lemma tick_evolves [evolve_intros]: "evolves w (tick w)"
  by (simp add: evolves_def tick_clock)

text \<open>A context that is not done at the horizon is never seen done.\<close>

definition in_time :: "ctx \<Rightarrow> world \<Rightarrow> bool" where
  "in_time c w \<longleftrightarrow> ctx_err_at c (horizon w) = None"

lemma in_time_now: "in_time c w \<Longrightarrow> ctx_err_at c (w_clock w) = None"
  using ctx_err_at_mono [of c "w_clock w" _ "horizon w"] by (cases "ctx_err_at c (w_clock w)") (auto simp: in_time_def horizon_def)

lemma in_time_evolves: "evolves w w1 \<Longrightarrow> in_time c w1 = in_time c w"
  by (simp add: in_time_def evolves_def)

lemma in_time_tick [simp]: "in_time c (tick w) = in_time c w"
  by (simp add: in_time_def)

lemma ctx_Err_in_time: "in_time c w \<Longrightarrow> ctx_Err c w = (None, tick w)"
  using in_time_now [of c "tick w"] by (simp add: ctx_Err_def Let_def)

lemma in_time_never: "ctx_done c = None \<Longrightarrow> in_time c w"
  by (simp add: in_time_def ctx_err_at_def)

lemma ctx_Err_evolves [evolve_intros]: "ctx_Err c w = (r, w') \<Longrightarrow> evolves w w'"
  by (auto simp: ctx_Err_def Let_def evolve_intros)

lemma ctx_Err_tick: "ctx_Err c w = (r, w') \<Longrightarrow> w' = tick w"
  by (auto simp: ctx_Err_def Let_def)

lemma net_dial_evolves [evolve_intros]: "net_dial a w = (r, w') \<Longrightarrow> evolves w w'"
  using tick_evolves [of w]
  by (auto simp: net_dial_def Let_def evolves_def split: list.splits option.splits)

lemma tls_handshake_evolves [evolve_intros]: "tls_handshake i s b w = (r, w') \<Longrightarrow> evolves w w'"
  using tick_evolves [of w]
  by (auto simp: tls_handshake_def Let_def evolves_def split: list.splits)

lemma conn_arm_evolves [evolve_intros]: "conn_arm i t w = (r, w') \<Longrightarrow> evolves w w'"
  by (auto simp: conn_arm_def Let_def evolves_def split: list.splits)

lemma conn_write_evolves [evolve_intros]: "conn_write i f w = (r, w') \<Longrightarrow> evolves w w'"
  using tick_evolves [of w]
  by (auto simp: conn_write_def Let_def evolves_def split: list.splits)

lemma read_byte_evolves [evolve_intros]: "read_byte i w = (r, w') \<Longrightarrow> evolves w w'"
  using tick_evolves [of w]
  by (auto simp: read_byte_def Let_def evolves_def suffix_def split: list.splits)

lemma read_full_evolves [evolve_intros]: "read_full i n w = (r, w') \<Longrightarrow> evolves w w'"
  by (induction i n w arbitrary: r w' rule: read_full.induct)
    (auto split: prod.splits sum.splits dest: read_byte_evolves intro: evolves_trans)

lemma conn_close_evolves [evolve_intros]: "evolves w (conn_close i w)"
  by (simp add: conn_close_def evolves_def)

lemma rand_nonce_evolves [evolve_intros]: "rand_nonce w = (r, w') \<Longrightarrow> evolves w w'"
  by (auto simp: rand_nonce_def evolves_def split: list.splits)

lemma ioError_evolves [evolve_intros]: "ioError c e w = (r, w') \<Longrightarrow> evolves w w'"
  by (auto simp: ioError_def evolve_intros split: prod.splits option.splits)

lemma rand_nonce_length: "rand_nonce w = (Some n, w') \<Longrightarrow> length n = 24"
  by (auto simp: rand_nonce_def split: list.splits)

text \<open>A successful read consumes what it read.\<close>

lemma read_byte_consumes:
  "read_byte i w = (Inr b, w') \<Longrightarrow> w_inbox w i = Inr b # w_inbox w' i"
  by (auto simp: read_byte_def Let_def split: list.splits sum.splits)

lemma read_full_consumes:
  "read_full i n w = (Inr bs, w') \<Longrightarrow> w_inbox w i = map Inr bs @ w_inbox w' i \<and> length bs = n"
  by (induction i n w arbitrary: bs w' rule: read_full.induct)
    (auto split: prod.splits sum.splits dest!: read_byte_consumes)

end
