(* ===== verification/Text_Format.thy ===== *)
theory Text_Format
  imports Prelude
begin

text \<open>
  The contract between a printer and a parser of the driver's text fields.  Every value
  that crosses the wire as text (unsigned integers, floats, hexadecimal, whole record
  identities) provides it; its clients, the field lists joined by \<open>':'\<close> or \<open>' '\<close>,
  use only the laws stated here.
\<close>

locale text_format =
  fixes print :: "'a \<Rightarrow> string"
    and parse :: "string \<Rightarrow> 'a option"
    and ok :: "'a \<Rightarrow> bool"
  assumes parse_print: "ok x \<Longrightarrow> parse (print x) = Some x"
begin

lemma print_inj: "ok x \<Longrightarrow> ok y \<Longrightarrow> print x = print y \<Longrightarrow> x = y"
  using parse_print by (metis option.inject)

lemma print_inj_on: "inj_on print {x. ok x}"
  by (rule inj_onI) (auto intro: print_inj)

end

text \<open>A field whose printed form stays within an alphabet and is never empty.\<close>

locale text_field = text_format +
  fixes alphabet :: "char set"
  assumes print_alphabet: "ok x \<Longrightarrow> set (print x) \<subseteq> alphabet"
    and print_not_Nil: "ok x \<Longrightarrow> print x \<noteq> []"
begin

lemma print_no_sep: "ok x \<Longrightarrow> c \<notin> alphabet \<Longrightarrow> c \<notin> set (print x)"
  using print_alphabet by auto

lemma print_not_special: "ok x \<Longrightarrow> c \<notin> alphabet \<Longrightarrow> \<not> contains_any (print x) [c]"
  by (auto simp: contains_any_iff print_no_sep)

lemma split_print_prefix:
  "ok x \<Longrightarrow> c \<notin> alphabet \<Longrightarrow> split_on c (print x @ c # rest) = print x # split_on c rest"
  by (simp add: split_on_append print_no_sep)

end

text \<open>A format with one text per value: the parser accepts nothing but printed forms.\<close>

locale canonical_format = text_format +
  assumes print_parse: "parse s = Some x \<Longrightarrow> ok x \<and> s = print x"
begin

lemma parse_iff: "parse s = Some x \<longleftrightarrow> ok x \<and> s = print x"
  using parse_print print_parse by blast

lemma parse_inj: "parse s = Some x \<Longrightarrow> parse t = Some x \<Longrightarrow> s = t"
  using print_parse by metis

lemma parse_refuses: "s \<notin> print ` {x. ok x} \<Longrightarrow> parse s = None"
  using print_parse by (metis (mono_tags, lifting) image_eqI mem_Collect_eq not_None_eq)

end

end
