(* ===== verification/Strconv.thy ===== *)
theory Strconv
  imports Text_Format
begin

text \<open>
  The parts of Go's \<open>strconv\<close>, \<open>fmt\<close> and \<open>encoding/hex\<close> the driver calls on
  integers and bytes: decimal printing (\<open>%d\<close>), \<open>ParseUint\<close> in base 10, \<open>Atoi\<close>,
  and \<open>hex.EncodeToString\<close> / \<open>hex.DecodeString\<close>.
\<close>


section \<open>Decimal digits\<close>

definition is_digit :: "char \<Rightarrow> bool" where
  "is_digit c \<longleftrightarrow> 48 \<le> byte c \<and> byte c \<le> 57"

definition digit_val :: "char \<Rightarrow> nat" where
  "digit_val c = byte c - 48"

definition digit_char :: "nat \<Rightarrow> char" where
  "digit_char n = char_of (48 + n)"

abbreviation digits :: "char set" where
  "digits \<equiv> {c. is_digit c}"

definition digits_val :: "string \<Rightarrow> nat" where
  "digits_val s = foldl (\<lambda>a c. 10 * a + digit_val c) 0 s"

text \<open>\<open>fmt.Sprintf("%d", n)\<close> for an unsigned \<open>n\<close>.\<close>

fun dec :: "nat \<Rightarrow> string" where
  "dec n = (if n < 10 then [digit_char n] else dec (n div 10) @ [digit_char (n mod 10)])"

declare dec.simps [simp del]

lemma digit_char_digit [simp]: "n < 10 \<Longrightarrow> is_digit (digit_char n)"
  by (simp add: is_digit_def digit_char_def)

lemma digit_val_char [simp]: "n < 10 \<Longrightarrow> digit_val (digit_char n) = n"
  by (simp add: digit_val_def digit_char_def)

lemma digit_val_less: "is_digit c \<Longrightarrow> digit_val c < 10"
  by (auto simp: is_digit_def digit_val_def)

lemma digit_char_val [simp]: "is_digit c \<Longrightarrow> digit_char (digit_val c) = c"
  by (simp add: is_digit_def digit_val_def digit_char_def byte_def)

lemma foldl_digits:
  "foldl (\<lambda>a c. 10 * a + digit_val c) a s = a * 10 ^ length s + digits_val s"
proof (induction s arbitrary: a)
  case Nil
  then show ?case by (simp add: digits_val_def)
next
  case (Cons c s)
  have "digits_val (c # s) = digit_val c * 10 ^ length s + digits_val s"
    using Cons [of "digit_val c"] by (simp only: digits_val_def foldl_Cons) simp
  moreover have "foldl (\<lambda>a c. 10 * a + digit_val c) a (c # s) =
      (10 * a + digit_val c) * 10 ^ length s + digits_val s"
    by (simp only: foldl_Cons Cons)
  ultimately show ?case
    by (simp only: list.size power_Suc) (simp add: algebra_simps)
qed

lemma digit_val_zero [simp]: "digit_val CHR ''0'' = 0"
  by (simp add: digit_val_def byte_def)

lemma digit_char_0 [simp]: "digit_char 0 = CHR ''0''"
  by (simp add: digit_char_def char_of_def bit_iff_odd)

lemma digit_char_zero: "n < 10 \<Longrightarrow> digit_char n = CHR ''0'' \<longleftrightarrow> n = 0"
  by (metis digit_val_char digit_val_zero digit_char_0)

lemma digits_val_Nil [simp]: "digits_val [] = 0"
  by (simp add: digits_val_def)

lemma digits_val_append [simp]:
  "digits_val (s @ t) = digits_val s * 10 ^ length t + digits_val t"
  by (simp only: digits_val_def [of "s @ t"] foldl_append foldl_digits [of _ t])
    (simp only: digits_val_def)

lemma digits_val_Cons: "digits_val (c # s) = digit_val c * 10 ^ length s + digits_val s"
  using digits_val_append [of "[c]" s] by (simp add: digits_val_def)

lemma digits_val_single [simp]: "digits_val [c] = digit_val c"
  by (simp add: digits_val_def)

lemma digits_val_bound: "list_all is_digit s \<Longrightarrow> digits_val s < 10 ^ length s"
proof (induction s)
  case (Cons c s)
  then have "digit_val c < 10" "digits_val s < 10 ^ length s"
    by (auto simp: digit_val_less)
  then have "digit_val c * 10 ^ length s + digits_val s < (digit_val c + 1) * 10 ^ length s"
    by simp
  also have "\<dots> \<le> 10 * 10 ^ length s"
    using \<open>digit_val c < 10\<close> by (intro mult_right_mono) auto
  finally show ?case
    by (simp add: digits_val_Cons)
qed simp

lemma dec_digits [simp]: "list_all is_digit (dec n)"
proof (induction n rule: dec.induct)
  case (1 n)
  then show ?case
    by (subst dec.simps) auto
qed

lemma dec_set: "set (dec n) \<subseteq> digits"
  using dec_digits [of n] by (auto simp: list_all_iff)

lemma dec_not_Nil [simp]: "dec n \<noteq> []"
  by (subst dec.simps) simp

lemma digits_val_dec [simp]: "digits_val (dec n) = n"
proof (induction n rule: dec.induct)
  case (1 n)
  then show ?case
    by (subst dec.simps) auto
qed

lemma dec_leading: "1 < length (dec n) \<Longrightarrow> hd (dec n) \<noteq> CHR ''0''"
proof (induction n rule: dec.induct)
  case (1 n)
  show ?case
  proof (cases "n < 10")
    case True
    with "1.prems" show ?thesis by (simp add: dec.simps [of n])
  next
    case False
    show ?thesis
    proof (cases "n div 10 < 10")
      case True
      have "0 < n div 10" using False by simp
      with True have "digit_char (n div 10) \<noteq> CHR ''0''"
        using digit_char_zero by auto
      with False True show ?thesis by (simp add: dec.simps [of n] dec.simps [of "n div 10"])
    next
      case big: False
      then have "1 < length (dec (n div 10))"
        by (subst dec.simps) (simp add: Suc_lessI length_greater_0_conv)
      with "1.IH" False have "hd (dec (n div 10)) \<noteq> CHR ''0''" by blast
      with False show ?thesis by (simp add: dec.simps [of n] hd_append)
    qed
  qed
qed

text \<open>A digit string without a redundant leading zero is the printed form of its value.\<close>

lemma dec_digits_val:
  "list_all is_digit s \<Longrightarrow> s \<noteq> [] \<Longrightarrow> 1 < length s \<longrightarrow> hd s \<noteq> CHR ''0'' \<Longrightarrow> dec (digits_val s) = s"
proof (induction s rule: rev_induct)
  case (snoc c s)
  then have c: "is_digit c" and c10: "digit_val c < 10"
    by (auto simp: digit_val_less)
  show ?case
  proof (cases "s = []")
    case True
    with c c10 show ?thesis by (simp add: dec.simps [of "digit_val c"])
  next
    case False
    with snoc.prems have "hd s \<noteq> CHR ''0''"
      by (cases s) auto
    with snoc False have IH: "dec (digits_val s) = s" by simp
    have "digits_val s \<noteq> 0"
    proof
      assume "digits_val s = 0"
      with IH have "s = [digit_char 0]" by (simp add: dec.simps [of 0])
      with \<open>hd s \<noteq> CHR ''0''\<close> show False by simp
    qed
    then have "\<not> digits_val s * 10 + digit_val c < 10" by simp
    with IH c c10 show ?thesis by (simp add: dec.simps [of "digits_val s * 10 + digit_val c"])
  qed
qed simp

lemma length_dec_le: "n < 10 ^ k \<Longrightarrow> 0 < k \<Longrightarrow> length (dec n) \<le> k"
proof (induction n arbitrary: k rule: dec.induct)
  case (1 n)
  show ?case
  proof (cases "n < 10")
    case True
    with "1.prems" show ?thesis by (simp add: dec.simps [of n])
  next
    case False
    from "1.prems" obtain j where j: "k = Suc j" by (cases k) auto
    with False "1.prems" have "0 < j" by (cases j) auto
    moreover have "n div 10 < 10 ^ j" using "1.prems" j by (simp add: less_mult_imp_div_less mult.commute)
    ultimately have "length (dec (n div 10)) \<le> j" using "1.IH" False by blast
    with j False show ?thesis by (simp add: dec.simps [of n])
  qed
qed

lemma length_dec_ge: "0 < n \<Longrightarrow> 10 ^ (length (dec n) - 1) \<le> n"
proof (induction n rule: dec.induct)
  case (1 n)
  show ?case
  proof (cases "n < 10")
    case True
    with "1.prems" show ?thesis by (simp add: dec.simps [of n])
  next
    case False
    then have IH: "10 ^ (length (dec (n div 10)) - 1) \<le> n div 10" using "1.IH" by simp
    obtain j where j: "length (dec (n div 10)) = Suc j"
      by (metis dec_not_Nil length_0_conv not0_implies_Suc)
    with IH have "10 ^ j * 10 \<le> n" by (simp add: less_eq_div_iff_mult_less_eq)
    with j False show ?thesis by (simp add: dec.simps [of n] mult.commute)
  qed
qed

lemma less_pow_length_dec: "n < 10 ^ length (dec n)"
  using digits_val_bound [of "dec n"] by simp


section \<open>ParseUint and Atoi\<close>

text \<open>\<open>strconv.ParseUint(s, 10, bits)\<close>: no sign, no underscore, at least one digit.\<close>

definition parse_uint :: "string \<Rightarrow> nat \<Rightarrow> nat option" where
  "parse_uint s bits =
     (if s = [] \<or> \<not> list_all is_digit s then None
      else if digits_val s < 2 ^ bits then Some (digits_val s) else None)"

lemma parse_uint_dec [simp]: "n < 2 ^ bits \<Longrightarrow> parse_uint (dec n) bits = Some n"
  by (simp add: parse_uint_def)

lemma parse_uint_bound: "parse_uint s bits = Some n \<Longrightarrow> n < 2 ^ bits"
  by (auto simp: parse_uint_def split: if_splits)

text \<open>
  \<open>strconv.Atoi(s)\<close> on a 64-bit platform: an optional sign, digits, and the range of
  \<open>int\<close>.
\<close>

definition atoi :: "string \<Rightarrow> int option" where
  "atoi s =
     (let neg = (s \<noteq> [] \<and> hd s = CHR ''-'');
          ds = (if s \<noteq> [] \<and> (hd s = CHR ''-'' \<or> hd s = CHR ''+'') then tl s else s)
      in if ds = [] \<or> \<not> list_all is_digit ds then None
         else let n = (if neg then - int (digits_val ds) else int (digits_val ds))
              in if - (2 ^ 63) \<le> n \<and> n < 2 ^ 63 then Some n else None)"


section \<open>Hexadecimal\<close>

definition hex_char :: "nat \<Rightarrow> char" where
  "hex_char n = (if n < 10 then char_of (48 + n) else char_of (87 + n))"

definition hex_val :: "char \<Rightarrow> nat option" where
  "hex_val c =
     (let b = byte c in
      if 48 \<le> b \<and> b \<le> 57 then Some (b - 48)
      else if 97 \<le> b \<and> b \<le> 102 then Some (b - 87)
      else if 65 \<le> b \<and> b \<le> 70 then Some (b - 55)
      else None)"

text \<open>\<open>hex.EncodeToString\<close>: two lower-case digits per byte.\<close>

fun hex_encode :: "bytes \<Rightarrow> string" where
  "hex_encode [] = []"
| "hex_encode (c # cs) = hex_char (byte c div 16) # hex_char (byte c mod 16) # hex_encode cs"

text \<open>\<open>hex.DecodeString\<close>: an odd length or a byte that is no hex digit is an error.\<close>

fun hex_decode :: "string \<Rightarrow> bytes option" where
  "hex_decode [] = Some []"
| "hex_decode [_] = None"
| "hex_decode (a # b # s) =
     (case hex_val a of None \<Rightarrow> None
      | Some x \<Rightarrow> (case hex_val b of None \<Rightarrow> None
         | Some y \<Rightarrow> (case hex_decode s of None \<Rightarrow> None
            | Some r \<Rightarrow> Some (char_of (16 * x + y) # r))))"

definition hex_alphabet :: "char set" where
  "hex_alphabet = {c. (48 \<le> byte c \<and> byte c \<le> 57) \<or> (97 \<le> byte c \<and> byte c \<le> 102)}"

lemma hex_val_char [simp]: "n < 16 \<Longrightarrow> hex_val (hex_char n) = Some n"
  by (simp add: hex_val_def hex_char_def Let_def)

lemma hex_char_alphabet: "n < 16 \<Longrightarrow> hex_char n \<in> hex_alphabet"
  by (simp add: hex_alphabet_def hex_char_def)

lemma char_of_byte [simp]: "char_of (byte c) = c"
  by (simp add: byte_def)

lemma hex_decode_encode [simp]: "hex_decode (hex_encode s) = Some s"
proof (induction s)
  case (Cons c s)
  have "byte c div 16 < 16" using byte_less [of c] by linarith
  with Cons show ?case by simp
qed simp

lemma length_hex_encode [simp]: "length (hex_encode s) = 2 * length s"
  by (induction s) auto

lemma hex_encode_set: "set (hex_encode s) \<subseteq> hex_alphabet"
proof (induction s)
  case (Cons c s)
  have "byte c div 16 < 16" using byte_less [of c] by linarith
  with Cons show ?case by (simp add: hex_char_alphabet)
qed simp

lemma hex_decode_length: "hex_decode s = Some r \<Longrightarrow> length s = 2 * length r"
  by (induction s arbitrary: r rule: hex_decode.induct) (auto split: option.splits)

interpretation hexf: text_format hex_encode hex_decode "\<lambda>_. True"
  by unfold_locales simp

end
