(* ===== verification/Float64.thy ===== *)
theory Float64
  imports Complex_Main Strconv
begin

text \<open>
  Go's \<open>float64\<close> as the 64-bit pattern it is, with the two conversions of
  \<open>strconv\<close> the record identities use: \<open>ParseFloat(s, 64)\<close> and
  \<open>FormatFloat(f, 'g', -1, 64)\<close>.  Parsing reads Go's floating-point syntax and
  rounds the exact rational it denotes to the nearest even double; formatting emits
  the fewest decimal digits that parse back to the same double.
\<close>


section \<open>The bit pattern\<close>

type_synonym f64 = "64 word"

definition f64_neg :: "f64 \<Rightarrow> bool" where
  "f64_neg x \<longleftrightarrow> 2 ^ 63 \<le> unat x"

definition f64_mag :: "f64 \<Rightarrow> nat" where
  "f64_mag x = unat x mod 2 ^ 63"

definition f64_make :: "bool \<Rightarrow> nat \<Rightarrow> f64" where
  "f64_make neg mag = word_of_nat ((if neg then 2 ^ 63 else 0) + mag)"

definition inf_mag :: nat where
  "inf_mag = 2047 * 2 ^ 52"

definition isNaN :: "f64 \<Rightarrow> bool" where
  "isNaN x \<longleftrightarrow> inf_mag < f64_mag x"

definition isInf :: "f64 \<Rightarrow> bool" where
  "isInf x \<longleftrightarrow> f64_mag x = inf_mag"

text \<open>The comparison \<open>x > 0\<close>: false for NaN and for both zeros.\<close>

definition f64_pos :: "f64 \<Rightarrow> bool" where
  "f64_pos x \<longleftrightarrow> \<not> isNaN x \<and> \<not> f64_neg x \<and> f64_mag x \<noteq> 0"

text \<open>A finite double of magnitude \<open>mag\<close> is \<open>sig mag * 2 ^ pow mag\<close>.\<close>

definition sig :: "nat \<Rightarrow> nat" where
  "sig mag = (if mag < 2 ^ 52 then mag else 2 ^ 52 + mag mod 2 ^ 52)"

definition pow :: "nat \<Rightarrow> int" where
  "pow mag = (if mag < 2 ^ 52 then - 1074 else int (mag div 2 ^ 52) - 1075)"


section \<open>Rounding a positive rational\<close>

text \<open>\<open>n / d\<close> is brought to \<open>q * 2 ^ e\<close> with \<open>q\<close> below \<open>2 ^ 53\<close>, and, unless \<open>e\<close> is
  the least exponent, not below \<open>2 ^ 52\<close>.\<close>

function scale_up :: "nat \<Rightarrow> nat \<Rightarrow> int \<Rightarrow> nat \<times> int" where
  "scale_up n d e = (if 0 < d \<and> 2 ^ 53 * d \<le> n then scale_up n (2 * d) (e + 1) else (d, e))"
  by pat_completeness auto
termination
  by (relation "measure (\<lambda>(n, d, e). n - d)") auto

function scale_down :: "nat \<Rightarrow> nat \<Rightarrow> int \<Rightarrow> nat \<times> int" where
  "scale_down n d e = (if n < 2 ^ 52 * d \<and> - 1074 < e then scale_down (2 * n) d (e - 1) else (n, e))"
  by pat_completeness auto
termination
  by (relation "measure (\<lambda>(n, d, e). nat (e + 1074))") auto

declare scale_up.simps [simp del] scale_down.simps [simp del]

text \<open>Round half to even; \<open>None\<close> is the range error of an overflow.\<close>

definition round_pos :: "nat \<Rightarrow> nat \<Rightarrow> nat option" where
  "round_pos n d =
     (let (d1, e1) = scale_up n d 0;
          (n2, e2) = scale_down n d1 e1;
          q = n2 div d1; r = n2 mod d1;
          q1 = (if d1 < 2 * r \<or> (2 * r = d1 \<and> odd q) then q + 1 else q);
          (q2, e3) = (if q1 = 2 ^ 53 then (2 ^ 52, e2 + 1) else (q1, e2))
      in if 971 < e3 then None
         else Some (if q2 < 2 ^ 52 then q2 else nat (e3 + 1075) * 2 ^ 52 + (q2 - 2 ^ 52)))"


section \<open>ParseFloat\<close>

definition lower :: "char \<Rightarrow> char" where
  "lower c = (if 65 \<le> byte c \<and> byte c \<le> 90 then char_of (byte c + 32) else c)"

text \<open>Digits, one dot and underscores of the mantissa: the value of all digits read, the
  number of them after the dot, whether there was one, and the unread rest.\<close>

fun scan_mant :: "bool \<Rightarrow> bool \<Rightarrow> nat \<Rightarrow> nat \<Rightarrow> bool \<Rightarrow> string \<Rightarrow> nat \<times> nat \<times> bool \<times> string" where
  "scan_mant hex dot m f saw [] = (m, f, saw, [])"
| "scan_mant hex dot m f saw (c # cs) =
     (if c = CHR ''_'' then scan_mant hex dot m f saw cs
      else if c = CHR ''.'' then (if dot then (m, f, saw, c # cs) else scan_mant hex True m f saw cs)
      else if is_digit c then
        scan_mant hex dot ((if hex then 16 else 10) * m + digit_val c) (if dot then f + 1 else f) True cs
      else if hex \<and> hex_val c \<noteq> None then
        scan_mant hex dot (16 * m + the (hex_val c)) (if dot then f + 1 else f) True cs
      else (m, f, saw, c # cs))"

text \<open>Digits and underscores of the exponent; it stops growing at 10000.\<close>

fun scan_exp :: "nat \<Rightarrow> string \<Rightarrow> nat \<times> string" where
  "scan_exp e [] = (e, [])"
| "scan_exp e (c # cs) =
     (if c = CHR ''_'' then scan_exp e cs
      else if is_digit c then scan_exp (if e < 10000 then 10 * e + digit_val c else e) cs
      else (e, c # cs))"

text \<open>\<open>underscoreOK\<close>: an underscore stands between digits or after a base prefix.  The
  state is the last character class seen: a digit, an underscore, or another one.\<close>

datatype saw_class = SawDigit | SawUnderscore | SawOther

fun underscore_loop :: "bool \<Rightarrow> saw_class \<Rightarrow> string \<Rightarrow> bool" where
  "underscore_loop hex saw [] = (saw \<noteq> SawUnderscore)"
| "underscore_loop hex saw (c # cs) =
     (if is_digit c \<or> hex \<and> hex_val c \<noteq> None then underscore_loop hex SawDigit cs
      else if c = CHR ''_'' then saw = SawDigit \<and> underscore_loop hex SawUnderscore cs
      else saw \<noteq> SawUnderscore \<and> underscore_loop hex SawOther cs)"

definition split_sign :: "string \<Rightarrow> bool \<times> string" where
  "split_sign s =
     (case s of [] \<Rightarrow> (False, [])
      | c # cs \<Rightarrow> if c = CHR ''-'' then (True, cs) else if c = CHR ''+'' then (False, cs) else (False, s))"

definition underscore_ok :: "string \<Rightarrow> bool" where
  "underscore_ok s =
     (let t = snd (split_sign s) in
      if 2 \<le> length t \<and> t ! 0 = CHR ''0'' \<and> lower (t ! 1) \<in> {CHR ''b'', CHR ''o'', CHR ''x''}
      then underscore_loop (lower (t ! 1) = CHR ''x'') SawDigit (drop 2 t)
      else underscore_loop False SawOther t)"

definition nan_bits :: f64 where "nan_bits = 0x7FF8000000000001"

definition scale_value :: "nat \<Rightarrow> nat \<Rightarrow> int \<Rightarrow> nat option" where
  "scale_value m base x =
     (if m = 0 then Some 0 else round_pos (m * base ^ nat x) (base ^ nat (- x)))"

text \<open>The exponent part after the mantissa: its value and the rest, \<open>None\<close> for bad syntax.\<close>

definition read_exp :: "bool \<Rightarrow> string \<Rightarrow> (int \<times> string) option" where
  "read_exp hex rest =
     (if rest \<noteq> [] \<and> lower (hd rest) = (if hex then CHR ''p'' else CHR ''e'') then
        let (eneg, t) = split_sign (tl rest) in
        if t = [] \<or> \<not> is_digit (hd t) then None
        else let (e, u) = scan_exp 0 t in Some (if eneg then - int e else int e, u)
      else if hex then None
      else Some (0, rest))"

definition parse_float :: "string \<Rightarrow> f64 option" where
  "parse_float s =
     (let (neg, t) = split_sign s in
      if map lower t = ''inf'' \<or> map lower t = ''infinity'' then Some (f64_make neg inf_mag)
      else if map lower s = ''nan'' then Some nan_bits
      else
        let hex = (2 < length t \<and> t ! 0 = CHR ''0'' \<and> lower (t ! 1) = CHR ''x'');
            (m, f, saw, rest) = scan_mant hex False 0 0 False (if hex then drop 2 t else t)
        in if \<not> saw then None
           else case read_exp hex rest of None \<Rightarrow> None
             | Some (e, u) \<Rightarrow>
                 if u \<noteq> [] \<or> (CHR ''_'' \<in> set s \<and> \<not> underscore_ok s) then None
                 else map_option (f64_make neg)
                   (if hex then scale_value m 2 (e - 4 * int f) else scale_value m 10 (e - int f)))"


section \<open>FormatFloat\<close>

text \<open>The position of the decimal point: \<open>10 ^ (P - 1) \<le> n / d < 10 ^ P\<close>.\<close>

function lead_zeros :: "nat \<Rightarrow> nat \<Rightarrow> nat" where
  "lead_zeros n d = (if 0 < n \<and> 10 * n < d then Suc (lead_zeros (10 * n) d) else 0)"
  by pat_completeness auto
termination
  by (relation "measure (\<lambda>(n, d). d - n)") auto

declare lead_zeros.simps [simp del]

definition point :: "nat \<Rightarrow> nat \<Rightarrow> int" where
  "point n d = (if d \<le> n then int (length (dec (n div d))) else - int (lead_zeros n d))"

text \<open>
  \<open>shortest\<close> tries \<open>k\<close> significant digits: the \<open>k\<close>-digit decimals just below and just
  above the value.  Where both parse back to \<open>mag\<close> the nearer one is taken (half to
  even), where one does that one, where none does one more digit is tried.  The result
  is an integer of \<open>k\<close> digits, and \<open>k\<close>.
\<close>

fun shortest :: "nat \<Rightarrow> nat \<Rightarrow> int \<Rightarrow> nat \<Rightarrow> nat \<Rightarrow> nat \<Rightarrow> nat \<times> nat" where
  "shortest n d P mag fuel k =
     (let num = n * 10 ^ nat (int k - P); den = d * 10 ^ nat (P - int k);
          D = num div den; R = num mod den;
          back = (\<lambda>D. scale_value D 10 (P - int k) = Some mag);
          up = (den < 2 * R \<or> (2 * R = den \<and> odd D))
      in if back D then (if up \<and> back (D + 1) then D + 1 else D, k)
         else if back (D + 1) then (D + 1, k)
         else case fuel of 0 \<Rightarrow> (D, k) | Suc fuel' \<Rightarrow> shortest n d P mag fuel' (Suc k))"

declare shortest.simps [simp del]

definition strip_zeros :: "string \<Rightarrow> string" where
  "strip_zeros s = rev (dropWhile (\<lambda>c. c = CHR ''0'') (rev s))"

text \<open>Digits \<open>ds\<close> and decimal point \<open>dp\<close>: the value is \<open>0.ds * 10 ^ dp\<close>.\<close>

definition short_digits :: "nat \<Rightarrow> string \<times> int" where
  "short_digits mag =
     (let n = sig mag * 2 ^ nat (pow mag); d = 2 ^ nat (- pow mag); P = point n d;
          (D, k) = shortest n d P mag (nat (max P (P - pow mag))) 1;
          s = dec D
      in (strip_zeros s, P + (int (length s) - int k)))"

definition exp_text :: "int \<Rightarrow> string" where
  "exp_text e = (if e < 0 then ''-'' else ''+'') @ (if \<bar>e\<bar> < 10 then ''0'' else []) @ dec (nat \<bar>e\<bar>)"

definition fmt_e :: "string \<Rightarrow> int \<Rightarrow> string" where
  "fmt_e ds dp = hd ds # (if tl ds = [] then [] else CHR ''.'' # tl ds) @ ''e'' @ exp_text (dp - 1)"

definition fmt_f :: "string \<Rightarrow> int \<Rightarrow> string" where
  "fmt_f ds dp =
     (if dp \<le> 0 then ''0.'' @ replicate (nat (- dp)) CHR ''0'' @ ds
      else if nat dp < length ds then take (nat dp) ds @ ''.'' @ drop (nat dp) ds
      else ds @ replicate (nat dp - length ds) CHR ''0'')"

text \<open>The choice of \<open>%e\<close> or \<open>%f\<close> under \<open>'g'\<close> with the shortest precision.\<close>

definition fmt_g :: "string \<Rightarrow> int \<Rightarrow> string" where
  "fmt_g ds dp = (if dp - 1 < - 4 \<or> 6 \<le> dp - 1 then fmt_e ds dp else fmt_f ds dp)"

definition format_float :: "f64 \<Rightarrow> string" where
  "format_float x =
     (if isNaN x then ''NaN''
      else if isInf x then (if f64_neg x then ''-Inf'' else ''+Inf'')
      else (if f64_neg x then ''-'' else [])
           @ (if f64_mag x = 0 then ''0'' else let (ds, dp) = short_digits (f64_mag x) in fmt_g ds dp))"

end
