(* ===== verification/Float64_Laws.thy ===== *)
theory Float64_Laws
  imports Float64
begin

text \<open>
  The laws of the float conversions.  Rounding an exactly representable rational returns
  it and does not depend on the fraction that writes it; the digit search of the formatter
  always ends on digits that parse back; so parsing a formatted finite double gives the
  same bits.  The formatter's output has a small alphabet and a bounded length, which is
  what the wire fields need.
\<close>


section \<open>Rounding\<close>


lemma scale_up_spec:
  "0 < d \<Longrightarrow> scale_up n d e = (d1, e1) \<Longrightarrow>
     n < 2 ^ 53 * d1 \<and> (\<exists>j. d1 = 2 ^ j * d \<and> e1 = e + int j)"
proof (induction n d e rule: scale_up.induct)
  case (1 n d e)
  show ?case
  proof (cases "2 ^ 53 * d \<le> n")
    case True
    with "1.prems" have "scale_up n (2 * d) (e + 1) = (d1, e1)"
      by (subst (asm) scale_up.simps) simp
    with "1.IH" "1.prems"(1) True obtain j
      where "n < 2 ^ 53 * d1" "d1 = 2 ^ j * (2 * d)" "e1 = e + 1 + int j"
      by auto
    then show ?thesis
      by (intro conjI exI [of _ "Suc j"]) auto
  next
    case False
    with "1.prems" show ?thesis
      by (subst (asm) scale_up.simps) (auto intro: exI [of _ 0])
  qed
qed

lemma scale_down_spec:
  "- 1074 \<le> e \<Longrightarrow> n < 2 ^ 53 * d \<Longrightarrow> scale_down n d e = (n2, e2) \<Longrightarrow>
     - 1074 \<le> e2 \<and> n2 < 2 ^ 53 * d \<and> (2 ^ 52 * d \<le> n2 \<or> e2 = - 1074)
     \<and> (\<exists>i. n2 = 2 ^ i * n \<and> e2 = e - int i)"
proof (induction n d e rule: scale_down.induct)
  case (1 n d e)
  show ?case
  proof (cases "n < 2 ^ 52 * d \<and> - 1074 < e")
    case True
    with "1.prems" have "scale_down (2 * n) d (e - 1) = (n2, e2)"
      by (subst (asm) scale_down.simps) simp
    moreover have "2 * n < 2 ^ 53 * d" "- 1074 \<le> e - 1" using True by simp_all
    ultimately have IH: "- 1074 \<le> e2 \<and> n2 < 2 ^ 53 * d \<and> (2 ^ 52 * d \<le> n2 \<or> e2 = - 1074)
        \<and> (\<exists>i. n2 = 2 ^ i * (2 * n) \<and> e2 = e - 1 - int i)"
      using "1.IH" [OF True] by blast
    then obtain i where "n2 = 2 ^ i * (2 * n)" "e2 = e - 1 - int i" by blast
    then have "n2 = 2 ^ Suc i * n \<and> e2 = e - int (Suc i)" by simp
    with IH show ?thesis by blast
  next
    case False
    then have "scale_down n d e = (n, e)"
      by (simp only: scale_down.simps [of n d e] if_False)
    with "1.prems"(3) have "n2 = n" "e2 = e" by simp_all
    with False "1.prems"(1,2) show ?thesis
      by (auto intro: exI [of _ 0])
  qed
qed

text \<open>The canonical significand and exponent of a rational are unique.\<close>

lemma canonical_unique:
  fixes n2 d1 s :: nat
  assumes val: "real n2 / real d1 * 2 powi e2 = real s * 2 powi p"
    and d1: "0 < d1" and n2: "n2 < 2 ^ 53 * d1" "2 ^ 52 * d1 \<le> n2 \<or> e2 = - 1074" "- 1074 \<le> e2"
    and s: "s < 2 ^ 53" "2 ^ 52 \<le> s \<or> p = - 1074" "- 1074 \<le> p"
  shows "e2 = p \<and> n2 = s * d1"
proof -
  define q where "q = real n2 / real d1"
  have q: "q < 2 ^ 53" "2 ^ 52 \<le> q \<or> e2 = - 1074"
  proof -
    have "real n2 < 2 ^ 53 * real d1"
      using n2(1) by (metis of_nat_less_iff of_nat_mult of_nat_numeral of_nat_power)
    then show "q < 2 ^ 53" using d1 by (simp add: q_def divide_less_eq)
    show "2 ^ 52 \<le> q \<or> e2 = - 1074"
    proof (cases "e2 = - 1074")
      case False
      with n2(2) have "2 ^ 52 * real d1 \<le> real n2"
        by (metis of_nat_le_iff of_nat_mult of_nat_numeral of_nat_power)
      then show ?thesis using d1 by (simp add: q_def le_divide_eq)
    qed simp
  qed
  have q_eq: "q = real s * 2 powi (p - e2)"
    using val by (simp add: q_def power_int_diff field_simps)
  have half: "2 powi (- k) \<le> (1/2::real)" if "1 \<le> k" for k :: int
  proof -
    have "(2::real) powi (- k) \<le> 2 powi (- 1)"
      using that by (intro power_int_increasing) auto
    then show ?thesis by (simp add: power_int_minus)
  qed
  have "\<not> p < e2"
  proof
    assume "p < e2"
    then have "(2::real) powi (p - e2) \<le> 1/2"
      using half [of "e2 - p"] by simp
    then have "q \<le> real s * (1/2)"
      unfolding q_eq by (intro mult_left_mono) auto
    moreover have "real s < 2 ^ 53" using s(1) by (metis of_nat_less_iff of_nat_numeral of_nat_power)
    moreover have "(2::real) ^ 53 = 2 * 2 ^ 52" by simp
    ultimately have "q < 2 ^ 52" by simp
    with q(2) have "e2 = - 1074" by auto
    with \<open>p < e2\<close> s(3) show False by simp
  qed
  moreover have "\<not> e2 < p"
  proof
    assume "e2 < p"
    have "real s = q * 2 powi (e2 - p)"
      unfolding q_eq by (simp add: power_int_diff field_simps)
    also have "\<dots> \<le> q * (1/2)"
      using half [of "p - e2"] \<open>e2 < p\<close> by (intro mult_left_mono) (auto simp: q_def)
    also have "\<dots> < 2 ^ 52" using q(1) by simp
    finally have "s < 2 ^ 52"
      by (metis of_nat_less_iff of_nat_numeral of_nat_power)
    with s(2) \<open>e2 < p\<close> n2(3) show False by simp
  qed
  ultimately have "e2 = p" by simp
  with q_eq d1 q_def have "real n2 = real s * real d1" by (simp add: field_simps)
  then have "n2 = s * d1" by (metis of_nat_eq_iff of_nat_mult)
  with \<open>e2 = p\<close> show ?thesis by simp
qed

text \<open>A finite magnitude is determined by its significand and exponent.\<close>

lemma mag_cases:
  assumes "0 < mag" "mag < inf_mag"
  shows "0 < sig mag" "sig mag < 2 ^ 53" "2 ^ 52 \<le> sig mag \<or> pow mag = - 1074"
    "- 1074 \<le> pow mag" "pow mag \<le> 971"
    "mag = (if sig mag < 2 ^ 52 then sig mag
            else nat (pow mag + 1075) * 2 ^ 52 + (sig mag - 2 ^ 52))"
proof -
  have "mag div 2 ^ 52 < 2047"
    using assms(2) by (simp add: inf_mag_def div_less_iff_less_mult)
  moreover have "\<not> mag < 2 ^ 52 \<Longrightarrow> 1 \<le> mag div 2 ^ 52"
    by (simp add: less_eq_div_iff_mult_less_eq)
  moreover have "mag div 2 ^ 52 * 2 ^ 52 + mag mod 2 ^ 52 = mag"
    by (rule div_mult_mod_eq)
  ultimately show "0 < sig mag" "sig mag < 2 ^ 53" "2 ^ 52 \<le> sig mag \<or> pow mag = - 1074"
    "- 1074 \<le> pow mag" "pow mag \<le> 971"
    "mag = (if sig mag < 2 ^ 52 then sig mag
            else nat (pow mag + 1075) * 2 ^ 52 + (sig mag - 2 ^ 52))"
    using assms(1) by (auto simp: sig_def pow_def)
qed

text \<open>Rounding a rational that is exactly a finite double gives that double.\<close>

lemma round_pos_exact:
  assumes mag: "0 < mag" "mag < inf_mag" and d: "0 < d"
    and val: "real n / real d = real (sig mag) * 2 powi pow mag"
  shows "round_pos n d = Some mag"
proof -
  obtain d1 e1 where up: "scale_up n d 0 = (d1, e1)" by fastforce
  from scale_up_spec [OF d up] obtain j
    where n: "n < 2 ^ 53 * d1" and j: "d1 = 2 ^ j * d" "e1 = int j" by auto
  obtain n2 e2 where down: "scale_down n d1 e1 = (n2, e2)" by fastforce
  from scale_down_spec [OF _ n down] j(2) obtain i
    where e2: "- 1074 \<le> e2" and n2: "n2 < 2 ^ 53 * d1" "2 ^ 52 * d1 \<le> n2 \<or> e2 = - 1074"
      and i: "n2 = 2 ^ i * n" "e2 = e1 - int i" by auto
  have d1: "0 < d1" using d j(1) by simp
  have "real n2 / real d1 * 2 powi e2 = real n / real d"
    using d unfolding i j by (simp add: power_int_diff field_simps)
  then have "real n2 / real d1 * 2 powi e2 = real (sig mag) * 2 powi pow mag"
    using val by simp
  from canonical_unique [OF this d1 n2 e2] mag_cases [OF mag]
  have eq: "e2 = pow mag" "n2 = sig mag * d1" by auto
  have q: "n2 div d1 = sig mag" "n2 mod d1 = 0" using eq(2) d1 by auto
  show ?thesis
    using mag_cases [OF mag] d1 eq(1)
    unfolding round_pos_def up down Let_def prod.case q by auto
qed

section \<open>Invariance under scaling, and the digit search\<close>

lemma scale_up_scale:
  "0 < c \<Longrightarrow> scale_up (c * n) (c * d) e = (case scale_up n d e of (d1, e1) \<Rightarrow> (c * d1, e1))"
proof (induction n d e rule: scale_up.induct)
  case (1 n d e)
  have guard: "(0 < c * d \<and> 2 ^ 53 * (c * d) \<le> c * n) = (0 < d \<and> 2 ^ 53 * d \<le> n)"
    using "1.prems" by (auto simp: mult.left_commute [of _ c])
  show ?case
  proof (cases "0 < d \<and> 2 ^ 53 * d \<le> n")
    case True
    with "1.IH" "1.prems" have "scale_up (c * n) (c * (2 * d)) (e + 1) =
        (case scale_up n (2 * d) (e + 1) of (d1, e1) \<Rightarrow> (c * d1, e1))" by blast
    with True guard show ?thesis
      by (simp only: scale_up.simps [of n d e] scale_up.simps [of "c * n" "c * d" e] if_True simp_thms
          mult.left_commute [of 2 c d])
  next
    case False
    with guard show ?thesis
      by (simp only: scale_up.simps [of n d e] scale_up.simps [of "c * n" "c * d" e] if_False prod.case)
  qed
qed

lemma scale_down_scale:
  "0 < c \<Longrightarrow> scale_down (c * n) (c * d) e = (case scale_down n d e of (n1, e1) \<Rightarrow> (c * n1, e1))"
proof (induction n d e rule: scale_down.induct)
  case (1 n d e)
  have guard: "(c * n < 2 ^ 52 * (c * d) \<and> - 1074 < e) = (n < 2 ^ 52 * d \<and> - 1074 < e)"
    using "1.prems" by (auto simp: mult.left_commute [of _ c])
  show ?case
  proof (cases "n < 2 ^ 52 * d \<and> - 1074 < e")
    case True
    with "1.IH" "1.prems" have "scale_down (c * (2 * n)) (c * d) (e - 1) =
        (case scale_down (2 * n) d (e - 1) of (n1, e1) \<Rightarrow> (c * n1, e1))" by blast
    with True guard show ?thesis
      by (simp only: scale_down.simps [of n d e] scale_down.simps [of "c * n" "c * d" e] if_True simp_thms
          mult.left_commute [of 2 c n])
  next
    case False
    with guard show ?thesis
      by (simp only: scale_down.simps [of n d e] scale_down.simps [of "c * n" "c * d" e] if_False prod.case)
  qed
qed

text \<open>Rounding depends on the rational only, not on the fraction that writes it.\<close>

lemma round_pos_scale: "0 < c \<Longrightarrow> round_pos (c * n) (c * d) = round_pos n d"
proof -
  assume c: "0 < c"
  obtain d1 e1 where up: "scale_up n d 0 = (d1, e1)" by fastforce
  obtain n2 e2 where down: "scale_down n d1 e1 = (n2, e2)" by fastforce
  have "scale_up (c * n) (c * d) 0 = (c * d1, e1)" "scale_down (c * n) (c * d1) e1 = (c * n2, e2)"
    by (simp_all add: scale_up_scale scale_down_scale c up down)
  moreover have "c * n2 div (c * d1) = n2 div d1" "c * n2 mod (c * d1) = c * (n2 mod d1)"
    using c by (simp_all only: div_mult_mult1 mult_mod_right neq0_conv)
  moreover have "(c * d1 < 2 * (c * r)) = (d1 < 2 * r)" "(2 * (c * r) = c * d1) = (2 * r = d1)" for r
    using c by (simp_all only: mult.left_commute [of 2 c] mult_less_cancel1 mult_cancel1) auto
  ultimately show ?thesis
    by (simp only: round_pos_def up down Let_def prod.case)
qed

lemma scale_value_shift: "scale_value (m * 10 ^ z) 10 x = scale_value m 10 (x + int z)"
proof (cases "m = 0")
  case False
  have pos: "(0::nat) < 10 ^ a" for a by simp
  consider "0 \<le> x" | "x < 0" "0 \<le> x + int z" | "x + int z < 0" by linarith
  then have "round_pos (m * 10 ^ z * 10 ^ nat x) (10 ^ nat (- x)) =
      round_pos (m * 10 ^ nat (x + int z)) (10 ^ nat (- (x + int z)))"
  proof cases
    case 1
    then have "nat (x + int z) = nat x + z" "nat (- x) = 0" "nat (- (x + int z)) = 0"
      by (simp_all add: nat_add_distrib)
    then show ?thesis by (simp only: power_add mult.assoc mult.commute [of "10 ^ z"])
  next
    case 2
    define a where "a = nat (- x)"
    define b where "b = nat (x + int z)"
    have "x = - int a" "z = a + b" using 2 by (auto simp: a_def b_def)
    then have "m * 10 ^ z * 10 ^ nat x = 10 ^ a * (m * 10 ^ nat (x + int z))"
        "(10::nat) ^ nat (- x) = 10 ^ a * 10 ^ nat (- (x + int z))"
      by (simp_all add: power_add)
    then show ?thesis by (simp only: round_pos_scale [OF pos])
  next
    case 3
    then have "m * 10 ^ z * 10 ^ nat x = 10 ^ z * (m * 10 ^ nat (x + int z))"
        "(10::nat) ^ nat (- x) = 10 ^ z * 10 ^ nat (- (x + int z))"
      by (auto simp flip: power_add nat_add_distrib)
    then show ?thesis by (simp only: round_pos_scale [OF pos])
  qed
  with False show ?thesis by (simp add: scale_value_def)
qed (simp add: scale_value_def)

lemma scale_value_exact:
  assumes "0 < mag" "mag < inf_mag" "real D * 10 powi x = real (sig mag) * 2 powi pow mag"
  shows "scale_value D 10 x = Some mag"
proof -
  have "D \<noteq> 0"
  proof
    assume "D = 0"
    with assms(3) have "real (sig mag) * 2 powi pow mag = 0" by simp
    with mag_cases(1) [OF assms(1,2)] show False by simp
  qed
  moreover have "real (D * 10 ^ nat x) / real (10 ^ nat (- x)) = real D * 10 powi x"
    by (cases "0 \<le> x") (simp_all add: power_int_def field_simps)
  ultimately show ?thesis
    using round_pos_exact [OF assms(1,2)] assms(3) by (simp add: scale_value_def)
qed


lemma value_fraction:
  "real (s * 2 ^ nat p) / real (2 ^ nat (- p)) = real s * 2 powi p"
  by (cases "0 \<le> p") (simp_all add: power_int_def field_simps)

text \<open>One more digit is tried until a candidate parses back, at the latest when the
  decimal is exact.\<close>

lemma shortest_back:
  assumes mag: "0 < mag" "mag < inf_mag"
    and n: "n = sig mag * 2 ^ nat (pow mag)" and d: "d = 2 ^ nat (- pow mag)"
  shows "P \<le> int (k + fuel) \<Longrightarrow> P - pow mag \<le> int (k + fuel) \<Longrightarrow>
    shortest n d P mag fuel k = (D, k') \<Longrightarrow>
    scale_value D 10 (P - int k') = Some mag \<and> k \<le> k' \<and> k' \<le> k + fuel
    \<and> D \<le> Suc (n * 10 ^ nat (int k' - P) div (d * 10 ^ nat (P - int k')))"
proof (induction fuel arbitrary: k)
  case (Suc fuel)
  let ?D = "n * 10 ^ nat (int k - P) div (d * 10 ^ nat (P - int k))"
  let ?hit = "\<lambda>D. scale_value D 10 (P - int k) = Some mag"
  show ?case
  proof (cases "?hit ?D \<or> ?hit (?D + 1)")
    case True
    with Suc.prems(3) have "k' = k" "?hit D" "D \<le> ?D + 1"
      by (auto simp: shortest.simps [of n d P mag "Suc fuel" k] Let_def split: if_splits)
    then show ?thesis by simp
  next
    case False
    with Suc.prems(3) have "shortest n d P mag fuel (Suc k) = (D, k')"
      by (simp add: shortest.simps [of n d P mag "Suc fuel" k] Let_def)
    from Suc.IH [OF _ _ this] Suc.prems(1,2) show ?thesis by simp
  qed
next
  case 0
  let ?t = "nat (int k - P)"
  have t: "nat (- pow mag) \<le> ?t" "P - int k = - int ?t" using 0 by auto
  define D0 where "D0 = n * 10 ^ ?t div d"
  have "d dvd 2 ^ ?t" unfolding d by (rule le_imp_power_dvd [OF t(1)])
  also have "(2::nat) ^ ?t dvd 10 ^ ?t" by (rule dvd_power_same) simp
  finally have dvd: "d dvd n * 10 ^ ?t" by (rule dvd_mult)
  have "0 < d" unfolding d by simp
  from dvd have "D0 * d = n * 10 ^ ?t" unfolding D0_def by simp
  then have "real D0 * real d = real n * 10 ^ ?t"
    by (metis of_nat_mult of_nat_numeral of_nat_power)
  then have "real D0 / 10 ^ ?t = real n / real d"
    using \<open>0 < d\<close> by (simp add: field_simps)
  then have "real D0 * 10 powi (P - int k) = real (sig mag) * 2 powi pow mag"
    unfolding n d value_fraction t(2) by (simp only: power_int_minus power_int_of_nat divide_inverse)
  then have bk: "scale_value D0 10 (P - int k) = Some mag"
    by (rule scale_value_exact [OF mag])
  have "nat (P - int k) = 0" using t(2) by simp
  then have "n * 10 ^ nat (int k - P) div (d * 10 ^ nat (P - int k)) = D0"
      "n * 10 ^ nat (int k - P) mod (d * 10 ^ nat (P - int k)) = 0"
    using dvd unfolding D0_def by auto
  with bk 0(3) \<open>0 < d\<close> have "D = D0" "k' = k"
    by (auto simp: shortest.simps [of n d P mag 0 k] Let_def split: if_splits)
  with bk show ?case by (simp add: \<open>nat (P - int k) = 0\<close> D0_def)
qed

section \<open>Reading back the formatter's output\<close>

lemma lower_digit: "is_digit c \<Longrightarrow> lower c = c"
  by (simp add: is_digit_def lower_def)

lemma digit_not_special [simp]:
  assumes "is_digit c"
  shows "c \<noteq> CHR ''_''" "c \<noteq> CHR ''.''" "c \<noteq> CHR ''-''" "c \<noteq> CHR ''+''" "c \<noteq> CHR ''e''"
    "c \<noteq> CHR ''x''" "c \<noteq> CHR ''i''" "c \<noteq> CHR ''n''"
  using assms by (auto simp: is_digit_def byte_def)

lemma scan_mant_digits:
  "list_all is_digit ds \<Longrightarrow>
   scan_mant False dot m f saw (ds @ rest) =
   scan_mant False dot (m * 10 ^ length ds + digits_val ds)
     (if dot then f + length ds else f) (saw \<or> ds \<noteq> []) rest"
  by (induction ds arbitrary: m f saw) (simp_all add: digits_val_Cons algebra_simps)

lemma scan_exp_digits:
  "list_all is_digit ds \<Longrightarrow> a * 10 ^ length ds + digits_val ds < 100000 \<Longrightarrow>
   scan_exp a ds = (a * 10 ^ length ds + digits_val ds, [])"
proof (induction ds arbitrary: a)
  case (Cons c cs)
  let ?a = "10 * a + digit_val c"
  have eq: "a * 10 ^ length (c # cs) + digits_val (c # cs) = ?a * 10 ^ length cs + digits_val cs"
    by (simp add: digits_val_Cons algebra_simps)
  have "a * 10 ^ 1 \<le> a * 10 ^ length (c # cs)"
    by (intro mult_left_mono power_increasing) auto
  then have "a * 10 \<le> a * 10 ^ length (c # cs) + digits_val (c # cs)"
    by (simp only: power_one_right le_add1 trans_le_add1)
  also note Cons.prems(2)
  finally have "a < 10000" by simp
  with Cons.prems Cons.IH [of ?a] eq show ?case by simp
qed simp

lemma digits_val_zeros [simp]: "digits_val (replicate n CHR ''0'') = 0"
  by (induction n) (simp_all add: digits_val_Cons)

lemma underscore_no_digit [simp]: "\<not> is_digit CHR ''_''" "\<not> is_digit CHR ''.''"
  by (simp_all add: is_digit_def byte_def)

lemma digits_no_underscore: "list_all is_digit s \<Longrightarrow> CHR ''_'' \<notin> set s"
  by (metis list_all_iff underscore_no_digit(1))

lemma zero_digit [simp]: "is_digit CHR ''0''"
  by (simp add: is_digit_def byte_def)

lemma exp_text_read:
  assumes "\<bar>e\<bar> < 10000"
  shows "read_exp False (CHR ''e'' # exp_text e) = Some (e, [])"
proof -
  let ?ds = "(if \<bar>e\<bar> < 10 then ''0'' else []) @ dec (nat \<bar>e\<bar>)"
  have ds: "list_all is_digit ?ds" "?ds \<noteq> []" "digits_val ?ds = nat \<bar>e\<bar>"
    by auto
  have "is_digit (hd ?ds)" using ds(1,2) by (cases ?ds) auto
  moreover have "scan_exp 0 ?ds = (nat \<bar>e\<bar>, [])"
    using scan_exp_digits [OF ds(1), of 0] ds(3) assms by simp
  moreover have "split_sign (exp_text e) = (e < 0, ?ds)"
    by (simp add: split_sign_def exp_text_def)
  moreover have "lower CHR ''e'' = CHR ''e''" by (simp add: lower_def byte_def)
  ultimately show ?thesis
    using ds(2) by (auto simp: read_exp_def Let_def)
qed

lemma read_exp_Nil [simp]: "read_exp False [] = Some (0, [])"
  by (simp add: read_exp_def)

text \<open>What the parser makes of an unsigned decimal text of the formatter's shape.\<close>

definition plain_text :: "string \<Rightarrow> nat \<Rightarrow> int \<Rightarrow> bool" where
  "plain_text t m x \<longleftrightarrow> t \<noteq> [] \<and> is_digit (hd t) \<and> CHR ''_'' \<notin> set t
     \<and> (1 < length t \<longrightarrow> lower (t ! 1) \<noteq> CHR ''x'')
     \<and> (\<exists>m' f rest e. scan_mant False False 0 0 False t = (m', f, True, rest)
          \<and> read_exp False rest = Some (e, [])
          \<and> scale_value m' 10 (e - int f) = scale_value m 10 x)"

lemma parse_plain_text:
  assumes "plain_text t m x"
  shows "parse_float ((if neg then ''-'' else []) @ t) = map_option (f64_make neg) (scale_value m 10 x)"
proof -
  from assms obtain m' f rest e where t: "t \<noteq> []" "is_digit (hd t)" "CHR ''_'' \<notin> set t"
    and nox: "1 < length t \<longrightarrow> lower (t ! 1) \<noteq> CHR ''x''"
    and scan: "scan_mant False False 0 0 False t = (m', f, True, rest)"
    and exp: "read_exp False rest = Some (e, [])"
    and val: "scale_value m' 10 (e - int f) = scale_value m 10 x"
    by (auto simp: plain_text_def)
  let ?s = "(if neg then ''-'' else []) @ t"
  have sgn: "split_sign ?s = (neg, t)"
    using t by (cases t) (auto simp: split_sign_def)
  have "lower (hd t) = hd t" using t(2) by (rule lower_digit)
  then have ni: "map lower t \<noteq> ''inf''" "map lower t \<noteq> ''infinity''" "map lower ?s \<noteq> ''nan''"
    using t by (cases t; auto simp: lower_def byte_def)+
  have hex: "(2 < length t \<and> t ! 0 = CHR ''0'' \<and> lower (t ! 1) = CHR ''x'') = False"
    using nox by auto
  have und: "CHR ''_'' \<notin> set ?s" using t(3) by auto
  show ?thesis
    using ni und unfolding parse_float_def sgn prod.case Let_def hex if_False
    by (simp only: scan exp val prod.case option.case if_False if_True simp_thms)
qed

lemma lower_other [simp]:
  "lower CHR ''.'' = CHR ''.''" "lower CHR ''e'' = CHR ''e''"
  by (simp_all add: lower_def byte_def)

lemma nth1_no_x: "list_all (\<lambda>c. is_digit c \<or> c = CHR ''.'' \<or> c = CHR ''e'') (take 2 t) \<Longrightarrow>
   1 < length t \<longrightarrow> lower (t ! 1) \<noteq> CHR ''x''"
proof
  assume a: "list_all (\<lambda>c. is_digit c \<or> c = CHR ''.'' \<or> c = CHR ''e'') (take 2 t)" and "1 < length t"
  then have "is_digit (t ! 1) \<or> t ! 1 = CHR ''.'' \<or> t ! 1 = CHR ''e''"
    by (auto simp: list_all_length)
  then show "lower (t ! 1) \<noteq> CHR ''x''"
    by (auto simp: lower_digit)
qed

lemma exp_text_chars: "set (exp_text e) \<subseteq> {CHR ''+'', CHR ''-''} \<union> digits"
  using dec_set [of "nat \<bar>e\<bar>"] by (auto simp: exp_text_def)

lemma plain_text_fmt_e:
  assumes ds: "list_all is_digit ds" "ds \<noteq> []" and dp: "\<bar>dp - 1\<bar> < 10000"
  shows "plain_text (fmt_e ds dp) (digits_val ds) (dp - int (length ds))"
proof -
  from ds obtain c cs where c: "ds = c # cs" "is_digit c" "list_all is_digit cs" by (cases ds) auto
  let ?rest = "CHR ''e'' # exp_text (dp - 1)"
  have scan: "scan_mant False False 0 0 False (fmt_e ds dp) =
      (digits_val ds, length cs, True, ?rest)"
  proof (cases cs)
    case Nil
    with c show ?thesis by (simp add: fmt_e_def is_digit_def byte_def)
  next
    case (Cons b bs)
    have "fmt_e ds dp = c # CHR ''.'' # (cs @ ?rest)"
      by (simp add: fmt_e_def c(1) Cons)
    moreover have "scan_mant False True (digit_val c) 0 True (cs @ ?rest) =
        (digit_val c * 10 ^ length cs + digits_val cs, length cs, True, ?rest)"
      using c(3) by (simp add: scan_mant_digits) (simp add: is_digit_def byte_def)
    moreover have "\<not> is_digit CHR ''.''" by (simp add: is_digit_def byte_def)
    ultimately show ?thesis using c by (simp add: digits_val_Cons)
  qed
  have und: "CHR ''_'' \<notin> set (fmt_e ds dp)"
    using c exp_text_chars [of "dp - 1"] by (auto simp: fmt_e_def list_all_iff)
  have "list_all (\<lambda>c. is_digit c \<or> c = CHR ''.'' \<or> c = CHR ''e'') (take 2 (fmt_e ds dp))"
    using c by (cases cs) (auto simp: fmt_e_def)
  from nth1_no_x [OF this] show ?thesis
    using c und scan exp_text_read [OF dp] unfolding plain_text_def
    by (auto simp: fmt_e_def diff_diff_eq intro!: exI)
qed

lemma plain_text_fmt_f:
  assumes ds: "list_all is_digit ds" "ds \<noteq> []"
  shows "plain_text (fmt_f ds dp) (digits_val ds) (dp - int (length ds))"
proof -
  have nodot: "\<not> is_digit CHR ''.''" by (simp add: is_digit_def byte_def)
  have hd: "is_digit (hd ds)" using ds by (cases ds) auto
  consider "dp \<le> 0" | "0 < dp" "nat dp < length ds" | "0 < dp" "length ds \<le> nat dp" by linarith
  then show ?thesis
  proof cases
    case 1
    let ?z = "replicate (nat (- dp)) CHR ''0''"
    have t: "fmt_f ds dp = CHR ''0'' # CHR ''.'' # ((?z @ ds) @ [])"
      using 1 by (simp add: fmt_f_def)
    have all: "list_all is_digit (?z @ ds)" using ds by (auto simp: list_all_iff)
    have "scan_mant False True 0 0 True ((?z @ ds) @ []) =
        (digits_val ds, nat (- dp) + length ds, True, [])"
      by (subst scan_mant_digits [OF all]) simp
    then have "scan_mant False False 0 0 False (fmt_f ds dp) =
        (digits_val ds, nat (- dp) + length ds, True, [])"
      unfolding t using nodot by simp
    moreover have "CHR ''_'' \<notin> set (fmt_f ds dp)" unfolding t using digits_no_underscore [OF all] by simp
    moreover have "lower (fmt_f ds dp ! 1) \<noteq> CHR ''x''" unfolding t by simp
    ultimately show ?thesis using 1
      unfolding plain_text_def by (auto simp: t intro!: exI)
  next
    case 2
    let ?a = "take (nat dp) ds" and ?b = "drop (nat dp) ds"
    have t: "fmt_f ds dp = ?a @ CHR ''.'' # (?b @ [])"
      using 2 by (simp add: fmt_f_def)
    have ab: "list_all is_digit ?a" "list_all is_digit ?b" "?a \<noteq> []"
      using ds 2 by (auto simp: list_all_iff dest: in_set_takeD in_set_dropD)
    have "scan_mant False False 0 0 False (fmt_f ds dp) =
        (digits_val ?a * 10 ^ length ?b + digits_val ?b, length ?b, True, [])"
      unfolding t using ab nodot by (simp add: scan_mant_digits del: append_Nil2 length_drop)
    moreover have "digits_val ?a * 10 ^ length ?b + digits_val ?b = digits_val ds"
      by (metis append_take_drop_id digits_val_append)
    moreover have "CHR ''_'' \<notin> set (fmt_f ds dp)" unfolding t using ab by (auto simp: list_all_iff)
    moreover have "1 < length (fmt_f ds dp) \<longrightarrow> lower (fmt_f ds dp ! 1) \<noteq> CHR ''x''"
      by (rule nth1_no_x)
        (use ds in \<open>auto simp: t list_all_iff dest!: in_set_takeD in_set_dropD\<close>)
    moreover have "hd (fmt_f ds dp) = hd ds" "fmt_f ds dp \<noteq> []"
      unfolding t using ab(3) 2 by (auto simp: hd_append)
    moreover have "scale_value (digits_val ds) 10 (0 - int (length ?b)) =
        scale_value (digits_val ds) 10 (dp - int (length ds))"
      using 2 by (simp add: of_nat_diff)
    ultimately show ?thesis using hd read_exp_Nil unfolding plain_text_def
      by (intro conjI exI) (assumption | simp only:)+
  next
    case 3
    let ?z = "replicate (nat dp - length ds) CHR ''0''"
    have t: "fmt_f ds dp = (ds @ ?z) @ []" using 3 by (simp add: fmt_f_def)
    have all: "list_all is_digit (ds @ ?z)" using ds by (auto simp: list_all_iff)
    have "scan_mant False False 0 0 False (fmt_f ds dp) =
        (digits_val ds * 10 ^ (nat dp - length ds), 0, True, [])"
      unfolding t by (subst scan_mant_digits [OF all]) (use ds in simp)
    moreover have "scale_value (digits_val ds * 10 ^ (nat dp - length ds)) 10 0 =
        scale_value (digits_val ds) 10 (dp - int (length ds))"
      using 3 by (simp add: scale_value_shift)
    moreover have "CHR ''_'' \<notin> set (fmt_f ds dp)" unfolding t using digits_no_underscore [OF all] by simp
    moreover have "1 < length (fmt_f ds dp) \<longrightarrow> lower (fmt_f ds dp ! 1) \<noteq> CHR ''x''"
      by (rule nth1_no_x) (use all in \<open>auto simp: t list_all_iff dest!: in_set_takeD\<close>)
    ultimately show ?thesis using hd ds unfolding plain_text_def by (auto simp: t)
  qed
qed


lemma strip_zeros_split:
  obtains z where "s = strip_zeros s @ replicate z CHR ''0''"
proof
  let ?r = "takeWhile (\<lambda>c. c = CHR ''0'') (rev s)"
  have "rev ?r = replicate (length ?r) CHR ''0''"
    by (rule replicate_eqI) (auto dest: set_takeWhileD)
  moreover have "rev s = ?r @ rev (strip_zeros s)"
    by (simp add: strip_zeros_def)
  then have "s = strip_zeros s @ rev ?r"
    by (metis rev_append rev_rev_ident)
  ultimately show "s = strip_zeros s @ replicate (length ?r) CHR ''0''" by simp
qed

text \<open>The decimal point of a positive rational.\<close>

lemma lead_zeros_less:
  "0 < n \<Longrightarrow> n < d \<Longrightarrow> 10 ^ lead_zeros n d * n < d"
proof (induction n d rule: lead_zeros.induct)
  case (1 n d)
  then show ?case
    by (cases "10 * n < d") (auto simp: lead_zeros.simps [of n d] mult.assoc mult.left_commute)
qed

lemma lead_zeros_bound:
  assumes "0 < n" "n < d" "d < 10 ^ b"
  shows "lead_zeros n d < b"
proof -
  have "10 ^ lead_zeros n d * 1 \<le> 10 ^ lead_zeros n d * n"
    using assms(1) by (intro mult_le_mono2) simp
  also have "\<dots> < d" by (rule lead_zeros_less [OF assms(1,2)])
  also note assms(3)
  finally have "(10::nat) ^ lead_zeros n d < 10 ^ b" by simp
  then show ?thesis by (rule power_less_imp_less_exp [rotated]) simp
qed

lemma point_upper:
  assumes "0 < n" "0 < d"
  shows "n * 10 ^ nat (- point n d) < d * 10 ^ nat (point n d)"
proof (cases "d \<le> n")
  case True
  let ?l = "length (dec (n div d))"
  have "n div d < 10 ^ ?l" by (rule less_pow_length_dec)
  then have "n < d * 10 ^ ?l"
    using assms(2) by (simp add: div_less_iff_less_mult mult.commute)
  with True show ?thesis by (simp add: point_def)
next
  case False
  with assms lead_zeros_less [of n d] show ?thesis by (simp add: point_def mult.commute)
qed

lemma point_bounds:
  assumes "0 < n" "n < d * 10 ^ a" "0 < a" "d < 10 ^ b"
  shows "point n d \<le> int a" "- int b \<le> point n d"
proof -
  have "d \<le> n \<Longrightarrow> n div d < 10 ^ a"
    using assms(2) by (simp add: less_mult_imp_div_less mult.commute)
  then show "point n d \<le> int a" "- int b \<le> point n d"
    using assms(1,3,4) length_dec_le [of "n div d" a] lead_zeros_bound [of n d b]
    by (auto simp: point_def)
qed

text \<open>The digits chosen for a finite magnitude.\<close>

lemma short_digits_props:
  assumes mag: "0 < mag" "mag < inf_mag" and sd: "short_digits mag = (ds, dp)"
  shows "list_all is_digit ds" "ds \<noteq> []" "scale_value (digits_val ds) 10 (dp - int (length ds)) = Some mag"
    "length ds \<le> 1500" "\<bar>dp\<bar> \<le> 2000"
proof -
  define n where "n = sig mag * 2 ^ nat (pow mag)"
  define d where "d = (2::nat) ^ nat (- pow mag)"
  define P where "P = point n d"
  define N where "N = nat (max P (P - pow mag))"
  note mc = mag_cases [OF mag]
  have n0: "0 < n" and d0: "0 < d" using mc(1) by (auto simp: n_def d_def)
  obtain D k where short: "shortest n d P mag N 1 = (D, k)" by fastforce
  have sd': "ds = strip_zeros (dec D)" "dp = P + (int (length (dec D)) - int k)"
    using sd short by (auto simp: short_digits_def Let_def n_def d_def P_def N_def)
  have bk: "scale_value D 10 (P - int k) = Some mag" "1 \<le> k" "k \<le> 1 + N"
    "D \<le> Suc (n * 10 ^ nat (int k - P) div (d * 10 ^ nat (P - int k)))"
  proof -
    have "P \<le> int (1 + N)" "P - pow mag \<le> int (1 + N)" by (auto simp: N_def)
    from shortest_back [OF mag n_def d_def this short]
    show "scale_value D 10 (P - int k) = Some mag" "1 \<le> k" "k \<le> 1 + N"
      "D \<le> Suc (n * 10 ^ nat (int k - P) div (d * 10 ^ nat (P - int k)))" by blast+
  qed
  obtain z where z: "dec D = ds @ replicate z CHR ''0''"
    using strip_zeros_split sd'(1) by metis
  have D: "D = digits_val ds * 10 ^ z"
    by (metis z digits_val_dec digits_val_append digits_val_zeros length_replicate add_0_right)
  have "D \<noteq> 0" using bk(1) mag(1) by (cases "D = 0") (auto simp: scale_value_def)
  then show ne: "ds \<noteq> []" using D by auto
  show "list_all is_digit ds" using z dec_digits [of D] by (metis list_all_append)
  have "length (dec D) = length ds + z" using z by simp
  then have "P - int k + int z = dp - int (length ds)" using sd'(2) by simp
  then show "scale_value (digits_val ds) 10 (dp - int (length ds)) = Some mag"
    using bk(1) unfolding D scale_value_shift by simp
  have "(n::nat) < 2 ^ 53 * 2 ^ nat (pow mag)"
    unfolding n_def using mc(2) by simp
  also have "\<dots> \<le> 2 ^ 53 * 2 ^ 971"
    using mc(5) by (intro mult_le_mono2 power_increasing) auto
  also have "\<dots> < (10::nat) ^ 309" by simp
  also have "\<dots> \<le> d * 10 ^ 309" using d0 by simp
  finally have "n < d * 10 ^ 309" .
  moreover have "d \<le> 2 ^ 1074"
    unfolding d_def using mc(4) by (intro power_increasing) auto
  then have "d < 10 ^ 324" by (rule le_less_trans) simp
  ultimately have P: "P \<le> 309" "- 324 \<le> P"
    using point_bounds [OF n0, of d 309 324] by (auto simp: P_def)
  then have "N \<le> 1383" using mc(4) by (auto simp: N_def)
  then have k: "k \<le> 1384" using bk(3) by simp
  have "D \<le> 10 ^ k"
  proof -
    let ?A = "nat (int k - P)" and ?B = "nat (P - int k)"
    have "n * 10 ^ ?A * 10 ^ nat (- P) < d * 10 ^ ?B * 10 ^ k * 10 ^ nat (- P)"
    proof -
      have "n * 10 ^ nat (- P) < d * 10 ^ nat P" unfolding P_def by (rule point_upper [OF n0 d0])
      then have "n * 10 ^ nat (- P) * 10 ^ ?A < d * 10 ^ nat P * 10 ^ ?A" by simp
      moreover have "nat P + ?A = ?B + k + nat (- P)" by auto
      then have "(10::nat) ^ nat P * 10 ^ ?A = 10 ^ ?B * 10 ^ k * 10 ^ nat (- P)"
        by (metis power_add)
      ultimately show ?thesis by (simp add: mult.assoc mult.commute [of "10 ^ ?A"])
    qed
    then have "n * 10 ^ ?A < d * 10 ^ ?B * 10 ^ k" by simp
    then have "n * 10 ^ ?A div (d * 10 ^ ?B) < 10 ^ k"
      by (simp add: less_mult_imp_div_less mult.commute)
    with bk(4) show ?thesis by simp
  qed
  also have "(10::nat) ^ k < 10 ^ Suc k" by simp
  finally have len: "length (dec D) \<le> Suc k"
    by (rule length_dec_le) simp
  then show "length ds \<le> 1500" using k \<open>length (dec D) = length ds + z\<close> by simp
  have "1 \<le> length (dec D)" by (simp add: Suc_leI)
  with len k P show "\<bar>dp\<bar> \<le> 2000" unfolding sd'(2) by linarith
qed


section \<open>What the formatter promises\<close>

definition float_alphabet :: "char set" where
  "float_alphabet = digits \<union> {CHR ''-'', CHR ''+'', CHR ''.'', CHR ''e''}"

definition finite_float :: "f64 \<Rightarrow> bool" where
  "finite_float x \<longleftrightarrow> \<not> isNaN x \<and> \<not> isInf x"

lemma f64_make_id: "f64_make (f64_neg x) (f64_mag x) = x"
proof -
  have "unat x < 2 ^ LENGTH(64)" by (rule unsigned_less)
  then have "(if f64_neg x then 2 ^ 63 else 0) + f64_mag x = unat x"
    by (auto simp: f64_neg_def f64_mag_def mod_if)
  then show ?thesis by (simp add: f64_make_def)
qed

lemma plain_text_fmt_g:
  assumes "list_all is_digit ds" "ds \<noteq> []" "\<bar>dp\<bar> \<le> 2000"
  shows "plain_text (fmt_g ds dp) (digits_val ds) (dp - int (length ds))"
  using plain_text_fmt_e [OF assms(1,2), of dp] plain_text_fmt_f [OF assms(1,2), of dp] assms(3)
  by (simp add: fmt_g_def)

lemma plain_text_0: "plain_text ''0'' 0 0"
  by (simp add: plain_text_def)

text \<open>\<open>ParseFloat\<close> after \<open>FormatFloat\<close> is the identity on finite doubles, bit for bit.\<close>

lemma parse_format_float:
  assumes "finite_float x"
  shows "parse_float (format_float x) = Some x"
proof (cases "f64_mag x = 0")
  case True
  with assms have "format_float x = (if f64_neg x then ''-'' else []) @ ''0''"
    by (simp add: finite_float_def format_float_def)
  then have "parse_float (format_float x) = map_option (f64_make (f64_neg x)) (scale_value 0 10 0)"
    using parse_plain_text [OF plain_text_0] by simp
  then show ?thesis using True f64_make_id [of x] by (simp add: scale_value_def)
next
  case False
  with assms have mag: "0 < f64_mag x" "f64_mag x < inf_mag"
    by (auto simp: finite_float_def isNaN_def isInf_def)
  obtain ds dp where sd: "short_digits (f64_mag x) = (ds, dp)" by fastforce
  note props = short_digits_props [OF mag sd]
  from False assms sd have "format_float x = (if f64_neg x then ''-'' else []) @ fmt_g ds dp"
    by (simp add: finite_float_def format_float_def)
  then have "parse_float (format_float x) =
      map_option (f64_make (f64_neg x)) (scale_value (digits_val ds) 10 (dp - int (length ds)))"
    using parse_plain_text [OF plain_text_fmt_g [OF props(1,2,5)]] by simp
  with props(3) show ?thesis by (simp add: f64_make_id)
qed

lemma fmt_g_set:
  assumes "list_all is_digit ds" "ds \<noteq> []"
  shows "set (fmt_g ds dp) \<subseteq> float_alphabet"
proof -
  have "set ds \<subseteq> digits" using assms(1) by (auto simp: list_all_iff)
  moreover have "set (tl ds) \<subseteq> set ds" "hd ds \<in> set ds"
    using assms(2) by (auto dest: list.set_sel)
  ultimately show ?thesis
    using exp_text_chars [of "dp - 1"]
    by (auto simp: fmt_g_def fmt_e_def fmt_f_def float_alphabet_def dest: in_set_takeD in_set_dropD)
qed

lemma length_fmt_g:
  assumes "ds \<noteq> []" "length ds \<le> 1500" "\<bar>dp\<bar> \<le> 2000"
  shows "length (fmt_g ds dp) \<le> 1520"
proof -
  have "nat \<bar>dp - 1\<bar> < 10 ^ 4" using assms(3) by auto
  then have "length (dec (nat \<bar>dp - 1\<bar>)) \<le> 4" by (rule length_dec_le) simp
  then show ?thesis
    using assms by (auto simp: fmt_g_def fmt_e_def fmt_f_def exp_text_def)
qed

lemma format_float_shapes:
  assumes "finite_float x"
  shows "set (format_float x) \<subseteq> float_alphabet \<and> format_float x \<noteq> [] \<and> length (format_float x) \<le> 1521"
proof (cases "f64_mag x = 0")
  case True
  with assms have "format_float x = (if f64_neg x then ''-'' else []) @ ''0''"
    by (simp add: finite_float_def format_float_def)
  then show ?thesis by (simp add: float_alphabet_def)
next
  case False
  with assms have mag: "0 < f64_mag x" "f64_mag x < inf_mag"
    by (auto simp: finite_float_def isNaN_def isInf_def)
  obtain ds dp where sd: "short_digits (f64_mag x) = (ds, dp)" by fastforce
  note props = short_digits_props [OF mag sd]
  from False assms sd have "format_float x = (if f64_neg x then ''-'' else []) @ fmt_g ds dp"
    by (simp add: finite_float_def format_float_def)
  moreover have "fmt_g ds dp \<noteq> []"
    using props(2) by (auto simp: fmt_g_def fmt_e_def fmt_f_def)
  ultimately show ?thesis
    using fmt_g_set [OF props(1,2), of dp] length_fmt_g [OF props(2,4,5)]
    by (auto simp: float_alphabet_def)
qed

lemma length_format_float: "finite_float x \<Longrightarrow> length (format_float x) \<le> 1521"
  using format_float_shapes by blast

interpretation floatf: text_field format_float parse_float finite_float float_alphabet
  by unfold_locales (simp_all add: parse_format_float format_float_shapes)

end
