(* ===== verification/Ids.thy ===== *)
theory Ids
  imports Errors Float64_Laws
begin

text \<open>
  \<open>id.go\<close>: the record identity, its text form, the numeric fields of reply headers,
  codecs and payloads.
\<close>


section \<open>Identities\<close>

record ID =
  Parent :: "64 word"
  Epoch :: "32 word"
  Seq :: "32 word"
  TWrite :: f64
  Period :: f64
  Head :: f64

text \<open>The zero value \<open>ID{}\<close>.\<close>

definition zero_ID :: ID where
  "zero_ID = \<lparr>Parent = 0, Epoch = 0, Seq = 0, TWrite = 0, Period = 0, Head = 0\<rparr>"

definition finite_f :: "f64 \<Rightarrow> bool" where
  "finite_f f \<longleftrightarrow> \<not> isNaN f \<and> \<not> isInf f"

definition ID_valid :: "ID \<Rightarrow> bool" where
  "ID_valid i \<longleftrightarrow> finite_f (TWrite i) \<and> finite_f (Period i) \<and> f64_pos (Period i) \<and> finite_f (Head i)"

definition ID_String :: "ID \<Rightarrow> string" where
  "ID_String i = join_with COLON
     [dec (unat (Parent i)), dec (unat (Epoch i)), dec (unat (Seq i)),
      format_float (TWrite i), format_float (Period i), format_float (Head i)]"


section \<open>Numeric fields\<close>

definition uintField :: "string \<Rightarrow> nat \<Rightarrow> go_error + 64 word" where
  "uintField s bits =
     (if s = [] \<or> (1 < length s \<and> s ! 0 = CHR ''0'') then Inl ErrProtocol
      else if list_ex (\<lambda>b. byte b < byte CHR ''0'' \<or> byte CHR ''9'' < byte b) s then Inl ErrProtocol
      else case parse_uint s bits of
          None \<Rightarrow> Inl ErrProtocol
        | Some u \<Rightarrow> Inr (word_of_nat u))"

text \<open>\<open>bounded(s, max)\<close>: the bound is an \<open>int\<close>, compared after conversion to \<open>uint64\<close>; the
  result is converted back to \<open>int\<close>.\<close>

definition bounded :: "string \<Rightarrow> int \<Rightarrow> go_error + int" where
  "bounded s mx =
     (case uintField s 64 of
        Inl _ \<Rightarrow> Inl ErrProtocol
      | Inr u \<Rightarrow> if (word_of_int mx :: 64 word) < u then Inl ErrProtocol else Inr (sint u))"

definition parseFields :: "string list \<Rightarrow> go_error + ID" where
  "parseFields p =
     (if length p \<noteq> 6 then Inl ErrProtocol
      else case (uintField (p ! 0) 64, uintField (p ! 1) 32, uintField (p ! 2) 32,
                 parse_float (p ! 3), parse_float (p ! 4), parse_float (p ! 5)) of
          (Inr a, Inr b, Inr c, Some t, Some period, Some head) \<Rightarrow>
            (let i = \<lparr>Parent = a, Epoch = ucast b, Seq = ucast c, TWrite = t, Period = period, Head = head\<rparr>
             in if \<not> ID_valid i then Inl ErrProtocol else Inr i)
        | _ \<Rightarrow> Inl ErrProtocol)"

definition ParseID :: "string \<Rightarrow> go_error + ID" where
  "ParseID s =
     (case parseFields (split_on COLON s) of
        Inl _ \<Rightarrow> Inl ErrInvalidInput
      | Inr i \<Rightarrow> Inr i)"

definition MarshalText :: "ID \<Rightarrow> go_error + bytes" where
  "MarshalText i = (if \<not> ID_valid i then Inl ErrInvalidInput else Inr (ID_String i))"

text \<open>\<open>UnmarshalText\<close> writes through its receiver only on success.\<close>

definition UnmarshalText :: "ID \<Rightarrow> bytes \<Rightarrow> go_error option \<times> ID" where
  "UnmarshalText i b =
     (case ParseID b of
        Inl e \<Rightarrow> (Some e, i)
      | Inr n \<Rightarrow> (None, n))"


section \<open>Codecs and payloads\<close>

type_synonym codec = string

definition Raw :: codec where "Raw = ''raw''"
definition JSON :: codec where "JSON = ''json''"
definition NIF :: codec where "NIF = ''nif''"
definition BIF :: codec where "BIF = ''bif''"

definition codec_Valid :: "codec \<Rightarrow> bool" where
  "codec_Valid c \<longleftrightarrow> c = Raw \<or> c = JSON \<or> c = NIF \<or> c = BIF"

record Payload =
  Data :: bytes
  Codec :: codec

lemmas codec_defs = Raw_def JSON_def NIF_def BIF_def


section \<open>Numeric fields: one text per number\<close>

lemma digit_byte: "is_digit c \<longleftrightarrow> \<not> (byte c < byte CHR ''0'' \<or> byte CHR ''9'' < byte c)"
  by (auto simp: is_digit_def byte_def)

lemma list_ex_digit:
  "list_ex (\<lambda>b. byte b < byte CHR ''0'' \<or> byte CHR ''9'' < byte b) s \<longleftrightarrow> \<not> list_all is_digit s"
  by (auto simp: list_ex_iff list_all_iff digit_byte)

lemma uintField_Inr_iff:
  assumes "bits \<le> 64"
  shows "uintField s bits = Inr u \<longleftrightarrow> s = dec (unat u) \<and> unat u < 2 ^ bits"
proof
  assume u: "uintField s bits = Inr u"
  then have s: "s \<noteq> []" "1 < length s \<longrightarrow> s ! 0 \<noteq> CHR ''0''" "list_all is_digit s"
    by (auto simp: uintField_def list_ex_digit split: if_splits)
  from u have val: "digits_val s < 2 ^ bits" "u = word_of_nat (digits_val s)"
    by (auto simp: uintField_def parse_uint_def split: if_splits)
  have "(2::nat) ^ bits \<le> 2 ^ 64" using assms by (intro power_increasing) auto
  with val have "unat u = digits_val s" by (simp add: unat_of_nat)
  moreover have "dec (digits_val s) = s"
    using s by (intro dec_digits_val) (auto simp: hd_conv_nth)
  ultimately show "s = dec (unat u) \<and> unat u < 2 ^ bits" using val by simp
next
  assume u: "s = dec (unat u) \<and> unat u < 2 ^ bits"
  then have "1 < length s \<longrightarrow> s ! 0 \<noteq> CHR ''0''"
    using dec_leading [of "unat u"] by (simp add: hd_conv_nth)
  with u show "uintField s bits = Inr u"
    by (simp add: uintField_def list_ex_digit)
qed

lemma uintField_dec: "bits \<le> 64 \<Longrightarrow> n < 2 ^ bits \<Longrightarrow> uintField (dec n) bits = Inr (word_of_nat n)"
proof -
  assume a: "bits \<le> 64" "n < 2 ^ bits"
  have "(2::nat) ^ bits \<le> 2 ^ 64" using a(1) by (intro power_increasing) auto
  with a have "unat (word_of_nat n :: 64 word) = n" by (simp add: unat_of_nat)
  with a show ?thesis by (simp add: uintField_Inr_iff)
qed

lemma uintField_error: "uintField s bits = Inl e \<Longrightarrow> e = ErrProtocol"
  by (auto simp: uintField_def split: if_splits option.splits)

lemma bounded_Inr_iff:
  assumes "0 \<le> mx" "mx < 2 ^ 63"
  shows "bounded s mx = Inr n \<longleftrightarrow> 0 \<le> n \<and> n \<le> mx \<and> s = dec (nat n)"
proof -
  have "mx mod 2 ^ LENGTH(64) = mx"
    using assms by (intro mod_pos_pos_trivial) simp_all
  then have m: "unat (word_of_int mx :: 64 word) = nat mx"
    by (simp only: unat_eq_nat_uint uint_word_of_int)
  have small: "sint u = int (unat u)" if "unat u \<le> nat mx" for u :: "64 word"
  proof -
    have u: "int (unat u) < 2 ^ 63" using that assms by linarith
    have "sint u = signed_take_bit 63 (uint u)"
      using sint_uint [of u] by simp
    also have "\<dots> = uint u"
    proof (rule signed_take_bit_int_eq_self)
      have "0 \<le> uint u" by (rule unsigned_greater_eq)
      then show "- (2 ^ 63) \<le> uint u" by (rule order_trans [rotated]) simp
      show "uint u < 2 ^ 63" using u by (simp only: uint_nat)
    qed
    finally show ?thesis by (simp only: uint_nat)
  qed
  show ?thesis
  proof
    assume "bounded s mx = Inr n"
    then obtain u where u: "uintField s 64 = Inr u" "\<not> (word_of_int mx :: 64 word) < u" "n = sint u"
      by (auto simp: bounded_def split: sum.splits if_splits)
    then have le: "unat u \<le> nat mx" using m by (simp add: word_less_nat_alt)
    with u(3) small have n: "n = int (unat u)" by simp
    then have "0 \<le> n" "n \<le> mx" using le assms(1) by linarith+
    with n u(1) show "0 \<le> n \<and> n \<le> mx \<and> s = dec (nat n)"
      by (simp add: uintField_Inr_iff)
  next
    assume n: "0 \<le> n \<and> n \<le> mx \<and> s = dec (nat n)"
    define u where "u = (word_of_nat (nat n) :: 64 word)"
    have nn: "nat n < 2 ^ 64" using n assms by (simp add: nat_less_iff)
    then have uu: "unat u = nat n" by (simp add: u_def unat_of_nat)
    then have "unat u \<le> nat mx" using n by (simp only: nat_mono)
    with small [OF this] uu n have "sint u = n" by (simp del: of_nat_unat)
    moreover have "uintField s 64 = Inr u"
      using n nn uu by (simp add: uintField_Inr_iff)
    ultimately show "bounded s mx = Inr n"
      using m \<open>unat u \<le> nat mx\<close> by (simp add: bounded_def word_less_nat_alt)
  qed
qed

lemma bounded_error: "bounded s mx = Inl e \<Longrightarrow> e = ErrProtocol"
  by (auto simp: bounded_def split: sum.splits if_splits)

definition uint_parse :: "nat \<Rightarrow> string \<Rightarrow> 64 word option" where
  "uint_parse bits s = (case uintField s bits of Inl _ \<Rightarrow> None | Inr u \<Rightarrow> Some u)"

lemma uint_parse_Some_iff:
  "bits \<le> 64 \<Longrightarrow> uint_parse bits s = Some u \<longleftrightarrow> s = dec (unat u) \<and> unat u < 2 ^ bits"
  by (simp add: uint_parse_def uintField_Inr_iff [symmetric] split: sum.splits)

lemma unat_less_64: "unat (u :: 64 word) < 2 ^ 64"
proof -
  have "unat u < 2 ^ LENGTH(64)" by (rule unsigned_less)
  then show ?thesis by simp
qed

interpretation uint64f: text_field "\<lambda>u :: 64 word. dec (unat u)" "uint_parse 64" "\<lambda>_. True" digits
  by unfold_locales (use dec_set unat_less_64 in \<open>simp_all add: uint_parse_Some_iff\<close>)

interpretation uint64c: canonical_format "\<lambda>u :: 64 word. dec (unat u)" "uint_parse 64" "\<lambda>_. True"
  by unfold_locales (simp add: uint_parse_Some_iff)

interpretation uint32f: text_field "\<lambda>u :: 64 word. dec (unat u)" "uint_parse 32" "\<lambda>u. unat u < 2 ^ 32" digits
  by unfold_locales (use dec_set in \<open>simp_all add: uint_parse_Some_iff\<close>)

interpretation uint32c: canonical_format "\<lambda>u :: 64 word. dec (unat u)" "uint_parse 32" "\<lambda>u. unat u < 2 ^ 32"
  by unfold_locales (simp add: uint_parse_Some_iff)


section \<open>Identities: the text form\<close>

definition id_fields :: "ID \<Rightarrow> string list" where
  "id_fields i =
     [dec (unat (Parent i)), dec (unat (Epoch i)), dec (unat (Seq i)),
      format_float (TWrite i), format_float (Period i), format_float (Head i)]"

definition id_alphabet :: "char set" where
  "id_alphabet = insert COLON float_alphabet"

lemma finite_f_float [simp]: "finite_f = finite_float"
  by (simp add: fun_eq_iff finite_f_def finite_float_def)

lemma digits_sub_float: "digits \<subseteq> float_alphabet"
  by (auto simp: float_alphabet_def)

lemma separators_not_float: "COLON \<notin> float_alphabet" "SP \<notin> float_alphabet" "LF \<notin> float_alphabet"
    "CR \<notin> float_alphabet" "NUL \<notin> float_alphabet"
  by (simp_all add: float_alphabet_def is_digit_def byte_def)

lemma unat_less_32: "unat (u :: 32 word) < 2 ^ 32"
proof -
  have "unat u < 2 ^ LENGTH(32)" by (rule unsigned_less)
  then show ?thesis by simp
qed

lemma ID_String_join: "ID_String i = join_with COLON (id_fields i)"
  by (simp add: ID_String_def id_fields_def)

lemma id_fields_alphabet: "ID_valid i \<Longrightarrow> p \<in> set (id_fields i) \<Longrightarrow> set p \<subseteq> float_alphabet"
  using dec_set digits_sub_float floatf.print_alphabet
  by (fastforce simp: id_fields_def ID_valid_def)

lemma id_fields_no_sep:
  "ID_valid i \<Longrightarrow> p \<in> set (id_fields i) \<Longrightarrow> COLON \<notin> set p \<and> SP \<notin> set p"
  using id_fields_alphabet separators_not_float by blast

text \<open>The six printed fields of a valid identity parse back to it.\<close>

lemma parseFields_fields:
  assumes "ID_valid i"
  shows "parseFields (id_fields i) = Inr i"
proof -
  have ff: "finite_float (TWrite i)" "finite_float (Period i)" "finite_float (Head i)"
    using assms by (simp_all add: ID_valid_def)
  have u: "uintField (dec (unat (Parent i))) 64 = Inr (Parent i)"
    using unat_less_64 by (simp add: uintField_Inr_iff)
  have e: "uintField (dec (unat x)) 32 = Inr (ucast x)" for x :: "32 word"
  proof -
    have "unat (ucast x :: 64 word) = unat x"
      by (simp add: unsigned_ucast_eq take_bit_nat_eq_self_iff order.strict_trans [OF unat_less_32])
    then show ?thesis using unat_less_32 [of x] by (simp add: uintField_Inr_iff)
  qed
  have c: "ucast (ucast x :: 64 word) = x" for x :: "32 word"
    by transfer (simp add: take_bit_take_bit)
  have "parseFields (id_fields i) =
      (let j = \<lparr>Parent = Parent i, Epoch = Epoch i, Seq = Seq i, TWrite = TWrite i,
         Period = Period i, Head = Head i\<rparr>
       in if \<not> ID_valid j then Inl ErrProtocol else Inr j)"
    unfolding parseFields_def id_fields_def
    by (simp add: u e c floatf.parse_print ff)
  moreover have "\<lparr>Parent = Parent i, Epoch = Epoch i, Seq = Seq i, TWrite = TWrite i,
      Period = Period i, Head = Head i\<rparr> = i"
    by (cases i) simp
  ultimately show ?thesis using assms by (simp only: Let_def if_False not_True_eq_False)
qed

lemma split_ID_String: "ID_valid i \<Longrightarrow> split_on COLON (ID_String i) = id_fields i"
  unfolding ID_String_join using id_fields_no_sep by (intro split_join) (auto simp: id_fields_def)

text \<open>The form a request header carries: the same fields separated by spaces.\<close>

lemma spaced_ID_String:
  "ID_valid i \<Longrightarrow> replace_all COLON SP (ID_String i) = join_with SP (id_fields i)"
  unfolding ID_String_join using id_fields_no_sep by (intro replace_all_join) auto

lemma split_spaced_ID: "ID_valid i \<Longrightarrow> split_on SP (join_with SP (id_fields i)) = id_fields i"
  using id_fields_no_sep by (intro split_join) (auto simp: id_fields_def)

lemma ParseID_String: "ID_valid i \<Longrightarrow> ParseID (ID_String i) = Inr i"
  by (simp add: ParseID_def split_ID_String parseFields_fields)

lemma parseFields_valid: "parseFields p = Inr i \<Longrightarrow> ID_valid i"
  by (auto simp: parseFields_def Let_def split: if_splits sum.splits option.splits)

lemma parseFields_error: "parseFields p = Inl e \<Longrightarrow> e = ErrProtocol"
  by (auto simp: parseFields_def Let_def split: if_splits sum.splits option.splits)

lemma ParseID_valid: "ParseID s = Inr i \<Longrightarrow> ID_valid i"
  by (auto simp: ParseID_def dest: parseFields_valid split: sum.splits)

lemma ParseID_error: "ParseID s = Inl e \<Longrightarrow> e = ErrInvalidInput"
  by (auto simp: ParseID_def split: sum.splits)

lemma length_dec_64: "length (dec (unat (u :: 64 word))) \<le> 20"
  by (rule length_dec_le) (use unat_less_64 [of u] in \<open>simp_all add: order.strict_trans\<close>)

lemma length_dec_32: "length (dec (unat (u :: 32 word))) \<le> 10"
  by (rule length_dec_le) (use unat_less_32 [of u] in \<open>simp_all add: order.strict_trans\<close>)

lemma length_ID_String: "ID_valid i \<Longrightarrow> length (ID_String i) \<le> 4608"
  unfolding ID_String_join length_join_with id_fields_def
  using length_dec_64 [of "Parent i"] length_dec_32 [of "Epoch i"] length_dec_32 [of "Seq i"]
    length_format_float [of "TWrite i"] length_format_float [of "Period i"] length_format_float [of "Head i"]
  by (simp add: ID_valid_def)

definition id_parse :: "string \<Rightarrow> ID option" where
  "id_parse s = (case ParseID s of Inl _ \<Rightarrow> None | Inr i \<Rightarrow> Some i)"

lemma ID_String_set: "ID_valid i \<Longrightarrow> set (ID_String i) \<subseteq> id_alphabet"
  unfolding ID_String_join id_alphabet_def
  using set_join_with [of COLON "id_fields i"] id_fields_alphabet [of i] by blast

interpretation idf: text_field ID_String id_parse ID_valid id_alphabet
proof unfold_locales
  show "id_parse (ID_String i) = Some i" if "ID_valid i" for i
    using that by (simp add: id_parse_def ParseID_String)
  show "set (ID_String i) \<subseteq> id_alphabet" if "ID_valid i" for i
    using that by (rule ID_String_set)
  show "ID_String i \<noteq> []" for i
    by (simp add: ID_String_def)
qed


section \<open>Codecs\<close>

lemma codec_Valid_chars: "codec_Valid c \<Longrightarrow> c \<noteq> [] \<and> SP \<notin> set c \<and> length c \<le> 4"
  by (auto simp: codec_Valid_def codec_defs)

end
