(* ===== verification/Options.thy ===== *)
theory Options
  imports Errors Strconv
begin

text \<open>
  \<open>options.go\<close>: limits, credentials, options, their validation and defaults
  (\<open>normalize\<close>), with the parts of package \<open>net\<close> it calls.
\<close>

definition maxFrame :: int where "maxFrame = 64 * 1024 * 1024"
definition maxHeader :: nat where "maxHeader = 8192"
definition Second :: int where "Second = 1000000000"
definition Hour :: int where "Hour = 3600 * Second"

record Credentials =
  Username :: string
  Password :: string
  AuthToken :: string
  SecretKey :: string

record TLSOptions =
  CAFile :: string
  ServerName :: string
  InsecureSkipVerify :: bool

record Options =
  ConnectTimeout :: int
  ReadTimeout :: int
  WriteTimeout :: int
  MaxFrameBytes :: int
  MaxRedirects :: int
  DisableReadRetry :: bool
  Creds :: Credentials
  Galaxy :: string
  TLS :: "TLSOptions option"

definition no_credentials :: Credentials where
  "no_credentials = \<lparr>Username = [], Password = [], AuthToken = [], SecretKey = []\<rparr>"

text \<open>The zero value \<open>Options{}\<close>.\<close>

definition zero_Options :: Options where
  "zero_Options = \<lparr>ConnectTimeout = 0, ReadTimeout = 0, WriteTimeout = 0, MaxFrameBytes = 0,
     MaxRedirects = 0, DisableReadRetry = False, Creds = no_credentials, Galaxy = [], TLS = None\<rparr>"

text \<open>The part of a \<open>tls.Config\<close> the driver sets; \<open>RootCAs\<close> is the PEM text added to the
  system roots, \<open>None\<close> for the system roots alone.  \<open>MinVersion\<close> is TLS 1.2.\<close>

record tls_config =
  cfg_MinVersion :: nat
  cfg_ServerName :: string
  cfg_InsecureSkipVerify :: bool
  cfg_RootCAs :: "bytes option"

definition VersionTLS12 :: nat where "VersionTLS12 = 0x0303"

section \<open>Redaction\<close>

definition Credentials_String :: "Credentials \<Rightarrow> string" where
  "Credentials_String _ = ''Credentials([REDACTED])''"

definition Credentials_MarshalJSON :: "Credentials \<Rightarrow> bytes" where
  "Credentials_MarshalJSON _ = CHR 0x22 # ''[REDACTED]'' @ [CHR 0x22]"

definition Options_String :: "Options \<Rightarrow> string" where
  "Options_String _ = ''Options([REDACTED])''"

definition redacted_MarshalJSON :: "'a \<Rightarrow> bytes" where
  "redacted_MarshalJSON _ = CHR 0x22 # ''[REDACTED]'' @ [CHR 0x22]"


section \<open>net.SplitHostPort\<close>

fun index_of :: "char \<Rightarrow> string \<Rightarrow> nat option" where
  "index_of c [] = None"
| "index_of c (x # xs) = (if x = c then Some 0 else map_option Suc (index_of c xs))"

fun last_index :: "char \<Rightarrow> string \<Rightarrow> nat option" where
  "last_index c [] = None"
| "last_index c (x # xs) =
     (case last_index c xs of Some i \<Rightarrow> Some (Suc i)
      | None \<Rightarrow> if x = c then Some 0 else None)"

text \<open>The host and the port after the last colon, \<open>None\<close> for an address error.\<close>

definition SplitHostPort :: "string \<Rightarrow> (string \<times> string) option" where
  "SplitHostPort s =
     (case last_index COLON s of None \<Rightarrow> None
      | Some i \<Rightarrow>
          let finish = (\<lambda>host j k.
                if CHR ''['' \<in> set (drop j s) \<or> CHR '']'' \<in> set (drop k s) then None
                else Some (host, drop (i + 1) s))
          in if s ! 0 = CHR ''[''
             then (case index_of CHR '']'' s of None \<Rightarrow> None
                   | Some e \<Rightarrow> if e + 1 = i then finish (take (e - 1) (drop 1 s)) 1 (e + 1) else None)
             else if COLON \<in> set (take i s) then None
             else finish (take i s) 0 0)"


section \<open>normalize\<close>

definition peer_ok :: "string \<Rightarrow> bool" where
  "peer_ok p =
     (case SplitHostPort p of None \<Rightarrow> False
      | Some (host, port) \<Rightarrow>
          (case atoi port of None \<Rightarrow> False
           | Some n \<Rightarrow> \<not> (n < 1 \<or> 65535 < n \<or> host = [] \<or>
               contains_any host [CHR ''/'', CHR 0x5C, SP, CR, LF, TAB, NUL])))"

definition norm_duration :: "int \<Rightarrow> go_error + int" where
  "norm_duration d =
     (let d1 = (if d = 0 then 5 * Second else d)
      in if d1 < 0 \<or> Hour < d1 then Inl ErrInvalidInput else Inr d1)"

definition field_ok :: "string \<Rightarrow> bool" where
  "field_ok f \<longleftrightarrow> length f \<le> 1024 \<and> \<not> list_ex (\<lambda>b. byte b \<le> 32 \<or> byte b = 127) f"

text \<open>\<open>AuthToken\<close> stands in for a missing user name.\<close>

definition norm_credentials :: "Credentials \<Rightarrow> Credentials" where
  "norm_credentials c =
     (if Username c = [] \<and> AuthToken c \<noteq> [] then c\<lparr>Username := ''token'', Password := AuthToken c\<rparr> else c)"

text \<open>
  \<open>load_ca path\<close> stands for reading a file and adding its certificates to a pool: the
  PEM text, or \<open>None\<close> when the file cannot be read or holds no certificate.
\<close>

definition norm_tls :: "(string \<Rightarrow> bytes option) \<Rightarrow> TLSOptions \<Rightarrow> go_error + tls_config" where
  "norm_tls load_ca t =
     (let config = \<lparr>cfg_MinVersion = VersionTLS12, cfg_ServerName = ServerName t,
            cfg_InsecureSkipVerify = InsecureSkipVerify t, cfg_RootCAs = None\<rparr>
      in if CAFile t \<noteq> [] then
           (case load_ca (CAFile t) of None \<Rightarrow> Inl ErrInvalidInput
            | Some pem \<Rightarrow> Inr (config\<lparr>cfg_RootCAs := Some pem\<rparr>))
         else Inr config)"

definition normalize ::
  "(string \<Rightarrow> bytes option) \<Rightarrow> string list \<Rightarrow> Options \<Rightarrow> go_error + (Options \<times> tls_config option)" where
  "normalize load_ca peers o0 =
     (if peers = [] \<or> 64 < length peers then Inl ErrInvalidInput
      else if \<not> list_all peer_ok peers then Inl ErrInvalidInput
      else case norm_duration (ConnectTimeout o0) of Inl e \<Rightarrow> Inl e | Inr ct \<Rightarrow>
        (case norm_duration (ReadTimeout o0) of Inl e \<Rightarrow> Inl e | Inr rt \<Rightarrow>
        (case norm_duration (WriteTimeout o0) of Inl e \<Rightarrow> Inl e | Inr wt \<Rightarrow>
          (let mf = (if MaxFrameBytes o0 = 0 then maxFrame else MaxFrameBytes o0);
               mr = (if MaxRedirects o0 = 0 then 8 else MaxRedirects o0);
               c = norm_credentials (Creds o0)
           in if mf < 1 \<or> maxFrame < mf \<or> mr < 0 \<or> 32 < mr then Inl ErrInvalidInput
              else if \<not> list_all field_ok [Username c, Password c, Galaxy o0] then Inl ErrInvalidInput
              else if 4096 < length (SecretKey c) \<or>
                  (Username c = [] \<and> (Password c \<noteq> [] \<or> SecretKey c \<noteq> [])) then Inl ErrInvalidInput
              else let o1 = o0\<lparr>ConnectTimeout := ct, ReadTimeout := rt, WriteTimeout := wt,
                     MaxFrameBytes := mf, MaxRedirects := mr, Creds := c\<rparr>
              in case TLS o0 of None \<Rightarrow> Inr (o1, None)
                 | Some t \<Rightarrow> (case norm_tls load_ca t of Inl e \<Rightarrow> Inl e | Inr cfg \<Rightarrow> Inr (o1, Some cfg))))))"


section \<open>What normalised options promise\<close>

definition options_ok :: "Options \<Rightarrow> bool" where
  "options_ok c \<longleftrightarrow>
     0 < ConnectTimeout c \<and> ConnectTimeout c \<le> Hour \<and>
     0 < ReadTimeout c \<and> ReadTimeout c \<le> Hour \<and>
     0 < WriteTimeout c \<and> WriteTimeout c \<le> Hour \<and>
     1 \<le> MaxFrameBytes c \<and> MaxFrameBytes c \<le> maxFrame \<and>
     0 < MaxRedirects c \<and> MaxRedirects c \<le> 32 \<and>
     field_ok (Username (Creds c)) \<and> field_ok (Password (Creds c)) \<and> field_ok (Galaxy c) \<and>
     length (SecretKey (Creds c)) \<le> 4096 \<and>
     (Username (Creds c) = [] \<longrightarrow> Password (Creds c) = [] \<and> SecretKey (Creds c) = [] \<and> AuthToken (Creds c) = [])"

lemma norm_duration_ok: "norm_duration d = Inr r \<Longrightarrow> 0 < r \<and> r \<le> Hour"
  by (auto simp: norm_duration_def Let_def Second_def split: if_splits)

lemma norm_duration_idem: "norm_duration d = Inr r \<Longrightarrow> norm_duration r = Inr r"
  by (auto simp: norm_duration_def Let_def Second_def split: if_splits)

lemma norm_duration_error: "norm_duration d = Inl e \<Longrightarrow> e = ErrInvalidInput"
  by (auto simp: norm_duration_def Let_def split: if_splits)

lemma norm_credentials_idem: "norm_credentials (norm_credentials c) = norm_credentials c"
  by (auto simp: norm_credentials_def)

lemma norm_tls_error: "norm_tls ca t = Inl e \<Longrightarrow> e = ErrInvalidInput"
  by (auto simp: norm_tls_def Let_def split: if_splits option.splits)

lemma normalize_error: "normalize ca ps o0 = Inl e \<Longrightarrow> e = ErrInvalidInput"
  by (auto simp: normalize_def Let_def dest: norm_duration_error norm_tls_error
      split: if_splits sum.splits option.splits)

text \<open>The shape of an accepted configuration, used by all facts about \<open>normalize\<close>.\<close>

lemma normalize_InrE:
  assumes "normalize ca ps o0 = Inr (o1, t)"
  obtains ct rt wt mf mr where
    "ps \<noteq> []" "length ps \<le> 64" "list_all peer_ok ps"
    "norm_duration (ConnectTimeout o0) = Inr ct" "norm_duration (ReadTimeout o0) = Inr rt"
    "norm_duration (WriteTimeout o0) = Inr wt"
    "mf = (if MaxFrameBytes o0 = 0 then maxFrame else MaxFrameBytes o0)" "1 \<le> mf" "mf \<le> maxFrame"
    "mr = (if MaxRedirects o0 = 0 then 8 else MaxRedirects o0)" "0 \<le> mr" "mr \<le> 32"
    "list_all field_ok [Username (norm_credentials (Creds o0)), Password (norm_credentials (Creds o0)), Galaxy o0]"
    "length (SecretKey (norm_credentials (Creds o0))) \<le> 4096"
    "Username (norm_credentials (Creds o0)) = [] \<longrightarrow>
       Password (norm_credentials (Creds o0)) = [] \<and> SecretKey (norm_credentials (Creds o0)) = []"
    "o1 = o0\<lparr>ConnectTimeout := ct, ReadTimeout := rt, WriteTimeout := wt,
       MaxFrameBytes := mf, MaxRedirects := mr, Creds := norm_credentials (Creds o0)\<rparr>"
    "(case TLS o0 of None \<Rightarrow> t = None | Some x \<Rightarrow> \<exists>cfg. norm_tls ca x = Inr cfg \<and> t = Some cfg)"
  using assms
  by (auto simp: normalize_def Let_def not_less split: if_split_asm sum.split_asm option.split_asm)

lemma normalize_ok:
  assumes "normalize ca ps o0 = Inr (o1, t)"
  shows "options_ok o1"
  using assms
proof (cases rule: normalize_InrE)
  case (1 ct rt wt mf mr)
  have "Username (norm_credentials (Creds o0)) = [] \<Longrightarrow> AuthToken (norm_credentials (Creds o0)) = []"
    by (auto simp: norm_credentials_def split: if_splits)
  with 1 norm_duration_ok [OF 1(4)] norm_duration_ok [OF 1(5)] norm_duration_ok [OF 1(6)]
  show ?thesis by (auto simp: options_ok_def)
qed

text \<open>Normalising again changes nothing.\<close>

lemma normalize_idem:
  assumes "normalize ca ps o0 = Inr (o1, t)"
  shows "normalize ca ps o1 = Inr (o1, t)"
  using assms
proof (cases rule: normalize_InrE)
  case (1 ct rt wt mf mr)
  then have "mf \<noteq> 0" "mr \<noteq> 0" by auto
  then show ?thesis
    using 1 norm_duration_idem [OF 1(4)] norm_duration_idem [OF 1(5)] norm_duration_idem [OF 1(6)]
    by (simp add: normalize_def Let_def norm_credentials_idem split: option.split_asm) auto
qed

end
