(* ===== verification/Wire.thy ===== *)
theory Wire
  imports World Ids Options
begin

text \<open>
  \<open>wire.go\<close>: one connection of the client.  Reply headers are read byte by byte from
  the socket or, after secret-key authentication, from decrypted \<open>SEC\<close> frames; an
  \<open>exchange\<close> sends one request and reads one reply; \<open>handshake\<close> authenticates and
  negotiates before the connection is used.  The cryptography of
  \<open>golang.org/x/crypto\<close> is a parameter.
\<close>


section \<open>State\<close>

record wire =
  wi_conn :: nat
  wi_key :: "bytes option"
  wi_plain :: bytes

text \<open>\<open>blake256\<close> is \<open>blake2b.New256\<close> over the written bytes; \<open>seal key nonce m\<close> and
  \<open>unseal key nonce c\<close> are \<open>secretbox.Seal\<close> and \<open>secretbox.Open\<close> without the nonce
  prefix.\<close>

record crypto =
  blake256 :: "bytes \<Rightarrow> bytes"
  seal :: "bytes \<Rightarrow> bytes \<Rightarrow> bytes \<Rightarrow> bytes"
  unseal :: "bytes \<Rightarrow> bytes \<Rightarrow> bytes \<Rightarrow> bytes option"

text \<open>\<open>close\<close>: the socket is closed, key and decrypted bytes are overwritten.\<close>

definition wire_close :: "wire \<Rightarrow> world \<Rightarrow> wire \<times> world" where
  "wire_close wi w =
     (wi\<lparr>wi_key := map_option (\<lambda>k. replicate (length k) NUL) (wi_key wi),
         wi_plain := replicate (length (wi_plain wi)) NUL\<rparr>,
      conn_close (wi_conn wi) w)"

definition derive :: "crypto \<Rightarrow> bytes list \<Rightarrow> bytes" where
  "derive C parts = fit 32 (blake256 C (concat parts))"

definition encrypt :: "crypto \<Rightarrow> bytes \<Rightarrow> bytes \<Rightarrow> world \<Rightarrow> (go_error + bytes) \<times> world" where
  "encrypt C key m w =
     (case rand_nonce w of
        (None, w1) \<Rightarrow> (Inl ErrConnection, w1)
      | (Some nonce, w1) \<Rightarrow> (Inr (nonce @ seal C key nonce m), w1))"


section \<open>Header lines\<close>

text \<open>The loop of \<open>line\<close> over any source of bytes with a state.\<close>

function line_loop ::
  "('s \<Rightarrow> (go_error + char) \<times> 's) \<Rightarrow> bytes \<Rightarrow> 's \<Rightarrow> (go_error + bytes) \<times> 's" where
  "line_loop rd buf s =
     (case rd s of
        (Inl e, s1) \<Rightarrow> (Inl e, s1)
      | (Inr b, s1) \<Rightarrow>
          if b = LF then (Inr buf, s1)
          else if maxHeader < length (buf @ [b]) then (Inl ErrProtocol, s1)
          else line_loop rd (buf @ [b]) s1)"
  by pat_completeness auto
termination
  by (relation "measure (\<lambda>(rd, buf, s). Suc maxHeader - length buf)") auto

declare line_loop.simps [simp del]

text \<open>What \<open>line\<close> makes of the bytes before the line feed.\<close>

definition line_fields :: "bytes \<Rightarrow> go_error + string list" where
  "line_fields buf =
     (let b1 = (if buf \<noteq> [] \<and> last buf = CR then butlast buf else buf)
      in if b1 = [] then Inl ErrProtocol
         else if list_ex (\<lambda>b. byte b < 32 \<or> 126 < byte b) b1 then Inl ErrProtocol
         else Inr (split_on SP b1))"

definition line :: "('s \<Rightarrow> (go_error + char) \<times> 's) \<Rightarrow> 's \<Rightarrow> (go_error + string list) \<times> 's" where
  "line rd s =
     (case line_loop rd [] s of
        (Inl e, s1) \<Rightarrow> (Inl e, s1)
      | (Inr buf, s1) \<Rightarrow> (line_fields buf, s1))"

definition expect :: "string list \<Rightarrow> string \<Rightarrow> nat \<Rightarrow> bool \<Rightarrow> go_error option" where
  "expect p tag n auth =
     (if 0 < length p \<and> p ! 0 = ''ERR'' then Some (if auth then ErrAuthentication else ErrServer)
      else if length p \<noteq> n \<or> p ! 0 \<noteq> tag then Some ErrProtocol
      else None)"


section \<open>Raw and decrypted bytes\<close>

definition rawBytes :: "wire \<Rightarrow> nat \<Rightarrow> world \<Rightarrow> (go_error + bytes) \<times> world" where
  "rawBytes wi n w = read_full (wi_conn wi) n w"

text \<open>\<open>fill\<close> reads, checks and decrypts one \<open>SEC\<close> frame; \<open>mx\<close> is the frame limit.\<close>

definition fill :: "crypto \<Rightarrow> int \<Rightarrow> wire \<Rightarrow> world \<Rightarrow> go_error option \<times> wire \<times> world" where
  "fill C mx wi w =
     (case line (read_byte (wi_conn wi)) w of
        (Inl e, w1) \<Rightarrow> (Some e, wi, w1)
      | (Inr p, w1) \<Rightarrow>
        (case expect p ''SEC'' 2 False of
           Some e \<Rightarrow> (Some e, wi, w1)
         | None \<Rightarrow>
           (case bounded (p ! 1) (mx + int maxHeader + 41) of
              Inl _ \<Rightarrow> (Some ErrProtocol, wi, w1)
            | Inr n \<Rightarrow>
              if n < 40 then (Some ErrProtocol, wi, w1)
              else case rawBytes wi (nat n) w1 of
                (Inl e, w2) \<Rightarrow> (Some e, wi, w2)
              | (Inr b, w2) \<Rightarrow>
                (case unseal C (the (wi_key wi)) (fit 24 (take 24 b)) (drop 24 b) of
                   None \<Rightarrow> (Some ErrProtocol, wi, w2)
                 | Some plain \<Rightarrow>
                   if mx + int maxHeader + 1 < int (length (wi_plain wi)) + int (length plain)
                   then (Some ErrProtocol, wi, w2)
                   else (None, wi\<lparr>wi_plain := wi_plain wi @ plain\<rparr>, w2)))))"

text \<open>Reading any line or frame only shortens what is left to read; a frame accepted by
  \<open>fill\<close> shortens it strictly.\<close>

definition unread :: "nat \<Rightarrow> world \<Rightarrow> nat" where
  "unread i w = length (w_inbox w i)"

lemma read_byte_unread: "read_byte i w = (r, w1) \<Longrightarrow> unread i w1 \<le> unread i w"
  by (auto simp: read_byte_def Let_def unread_def split: list.splits)

lemma read_byte_unread_ok: "read_byte i w = (Inr b, w1) \<Longrightarrow> unread i w1 < unread i w"
  by (drule read_byte_consumes) (simp add: unread_def)

lemma line_loop_unread:
  "line_loop (read_byte i) buf w = (r, w1) \<Longrightarrow>
     unread i w1 \<le> unread i w \<and> (is_ok r \<longrightarrow> unread i w1 < unread i w)"
proof (induction "read_byte i" buf w rule: line_loop.induct)
  case (1 buf w)
  obtain x w2 where rd: "read_byte i w = (x, w2)" by fastforce
  show ?case
  proof (cases x)
    case (Inl e)
    with "1.prems" rd read_byte_unread [OF rd] show ?thesis
      by (subst (asm) line_loop.simps) auto
  next
    case (Inr b)
    with rd have lt: "unread i w2 < unread i w" by (auto dest: read_byte_unread_ok)
    show ?thesis
    proof (cases "b = LF \<or> maxHeader < length (buf @ [b])")
      case True
      with "1.prems" rd Inr lt show ?thesis
        by (subst (asm) line_loop.simps) (auto split: if_splits)
    next
      case False
      with "1.prems" rd Inr have "line_loop (read_byte i) (buf @ [b]) w2 = (r, w1)"
        by (subst (asm) line_loop.simps) simp
      with "1.hyps" [OF rd [symmetric] Inr] False lt show ?thesis by fastforce
    qed
  qed
qed

lemma read_full_unread: "read_full i n w = (r, w1) \<Longrightarrow> unread i w1 \<le> unread i w"
  by (drule read_full_evolves) (auto simp: evolves_def unread_def suffix_length_le)

lemma fill_unread:
  "fill C mx wi w = (None, wi1, w1) \<Longrightarrow>
     wi_conn wi1 = wi_conn wi \<and> unread (wi_conn wi) w1 < unread (wi_conn wi) w"
  by (auto simp: fill_def rawBytes_def line_def split: prod.splits sum.splits option.splits if_splits
      dest!: line_loop_unread read_full_unread)

text \<open>The loop of \<open>bytes\<close>: frames are read until \<open>n\<close> decrypted bytes are there.\<close>

function fill_loop :: "crypto \<Rightarrow> nat \<Rightarrow> int \<Rightarrow> wire \<Rightarrow> world \<Rightarrow> go_error option \<times> wire \<times> world" where
  "fill_loop C n mx wi w =
     (if length (wi_plain wi) < n then
        (case fill C mx wi w of
           (Some e, wi1, w1) \<Rightarrow> (Some e, wi1, w1)
         | (None, wi1, w1) \<Rightarrow> fill_loop C n mx wi1 w1)
      else (None, wi, w))"
  by pat_completeness auto
termination
  by (relation "measure (\<lambda>(C, n, mx, wi, w). unread (wi_conn wi) w)")
    (auto dest: fill_unread [OF sym])

declare fill_loop.simps [simp del]

definition wire_bytes :: "crypto \<Rightarrow> nat \<Rightarrow> int \<Rightarrow> wire \<Rightarrow> world \<Rightarrow> (go_error + bytes) \<times> wire \<times> world" where
  "wire_bytes C n mx wi w =
     (if wi_key wi = None then (let (r, w1) = rawBytes wi n w in (r, wi, w1))
      else case fill_loop C n mx wi w of
          (Some e, wi1, w1) \<Rightarrow> (Inl e, wi1, w1)
        | (None, wi1, w1) \<Rightarrow>
            (Inr (take n (wi_plain wi1)), wi1\<lparr>wi_plain := drop n (wi_plain wi1)\<rparr>, w1))"

text \<open>The two byte sources of \<open>header\<close>, over the state (wire, world).\<close>

definition raw_source :: "wire \<times> world \<Rightarrow> (go_error + char) \<times> wire \<times> world" where
  "raw_source = (\<lambda>(wi, w). let (r, w1) = read_byte (wi_conn wi) w in (r, wi, w1))"

definition secure_source :: "crypto \<Rightarrow> int \<Rightarrow> wire \<times> world \<Rightarrow> (go_error + char) \<times> wire \<times> world" where
  "secure_source C mx = (\<lambda>(wi, w).
     (case wire_bytes C 1 mx wi w of
        (Inl e, wi1, w1) \<Rightarrow> (Inl e, wi1, w1)
      | (Inr b, wi1, w1) \<Rightarrow> (Inr (b ! 0), wi1, w1)))"

definition header :: "crypto \<Rightarrow> int \<Rightarrow> wire \<Rightarrow> world \<Rightarrow> (go_error + string list) \<times> wire \<times> world" where
  "header C mx wi w =
     (if wi_key wi = None then line raw_source (wi, w) else line (secure_source C mx) (wi, w))"


section \<open>The byte-source interface of \<open>line\<close>\<close>

text \<open>
  \<open>line\<close> is called on two readers and knows nothing of either.  A source provides: a
  preorder of its states that every read follows, what it takes for bytes to be on offer,
  and the class of errors it fails with.
\<close>

locale byte_source =
  fixes rd :: "'s \<Rightarrow> (go_error + char) \<times> 's"
    and step :: "'s \<Rightarrow> 's \<Rightarrow> bool"
    and offers :: "'s \<Rightarrow> char list \<Rightarrow> bool"
    and failure :: "go_error \<Rightarrow> bool"
  assumes step_refl: "step s s"
    and step_trans: "step s t \<Longrightarrow> step t u \<Longrightarrow> step s u"
    and rd_step: "rd s = (r, t) \<Longrightarrow> step s t"
    and rd_failure: "rd s = (Inl e, t) \<Longrightarrow> failure e"
    and rd_offers: "offers s (b # bs) \<Longrightarrow> \<exists>t. rd s = (Inr b, t) \<and> offers t bs"
begin

text \<open>The loop is unfolded along its own recursion, with the source fixed.\<close>

lemma line_loop_induct:
  assumes "\<And>buf s. (\<And>b t. rd s = (Inr b, t) \<Longrightarrow> b \<noteq> LF \<Longrightarrow> length buf < maxHeader \<Longrightarrow> P (buf @ [b]) t)
      \<Longrightarrow> P buf s"
  shows "P buf s"
  by (induction "Suc maxHeader - length buf" arbitrary: buf s rule: less_induct) (rule assms, simp)

lemma line_loop_step: "line_loop rd buf s = (r, t) \<Longrightarrow> step s t"
proof (induction buf s arbitrary: r t rule: line_loop_induct)
  case (1 buf s)
  then show ?case
    by (subst (asm) (2) line_loop.simps)
      (auto split: prod.splits sum.splits if_splits intro: rd_step step_trans)
qed

lemma line_loop_failure: "line_loop rd buf s = (Inl e, t) \<Longrightarrow> e = ErrProtocol \<or> failure e"
proof (induction buf s arbitrary: t rule: line_loop_induct)
  case (1 buf s)
  then show ?case
    by (subst (asm) (2) line_loop.simps)
      (auto split: prod.splits sum.splits if_splits dest: rd_failure)
qed

lemma line_loop_offers:
  "offers s (h @ LF # rest) \<Longrightarrow> LF \<notin> set h \<Longrightarrow> length buf + length h \<le> maxHeader \<Longrightarrow>
     \<exists>t. line_loop rd buf s = (Inr (buf @ h), t) \<and> offers t rest"
proof (induction h arbitrary: buf s)
  case Nil
  then obtain t where "rd s = (Inr LF, t)" "offers t rest"
    using rd_offers by fastforce
  then show ?case by (subst line_loop.simps) simp
next
  case (Cons b h)
  then obtain t where t: "rd s = (Inr b, t)" "offers t (h @ LF # rest)"
    using rd_offers by fastforce
  from Cons.IH [OF t(2), of "buf @ [b]"] Cons.prems obtain u
    where "line_loop rd (buf @ [b]) t = (Inr (buf @ b # h), u)" "offers u rest"
    by auto
  with t(1) Cons.prems show ?case by (subst line_loop.simps) auto
qed

lemma line_loop_result: "line_loop rd buf s = (Inr b, t) \<Longrightarrow> length buf \<le> maxHeader \<Longrightarrow> LF \<notin> set buf \<Longrightarrow>
   length b \<le> maxHeader \<and> LF \<notin> set b"
proof (induction buf s arbitrary: t rule: line_loop_induct)
  case (1 buf s)
  then show ?case
    by (subst (asm) (2) line_loop.simps)
      (fastforce split: prod.splits sum.splits if_splits)
qed

lemma line_step: "line rd s = (r, t) \<Longrightarrow> step s t"
  by (auto simp: line_def split: prod.splits sum.splits dest: line_loop_step)

lemma line_failure: "line rd s = (Inl e, t) \<Longrightarrow> e = ErrProtocol \<or> failure e"
  by (auto simp: line_def line_fields_def Let_def split: prod.splits sum.splits if_splits
      dest: line_loop_failure)

lemma line_result:
  "line rd s = (Inr p, t) \<Longrightarrow> \<exists>buf. length buf \<le> maxHeader \<and> line_fields buf = Inr p"
  by (auto simp: line_def split: prod.splits sum.splits dest: line_loop_result)

lemma line_offers:
  "offers s (h @ LF # rest) \<Longrightarrow> LF \<notin> set h \<Longrightarrow> length h \<le> maxHeader \<Longrightarrow>
     \<exists>t. line rd s = (line_fields h, t) \<and> offers t rest"
  using line_loop_offers [of s h rest "[]"] by (auto simp: line_def)

end

text \<open>An accepted header: at least one field, printable ASCII only, no field contains a space.\<close>

lemma line_fields_ok:
  assumes "line_fields buf = Inr p"
  shows "p \<noteq> []" "\<And>f c. f \<in> set p \<Longrightarrow> c \<in> set f \<Longrightarrow> 33 \<le> byte c \<and> byte c \<le> 126"
    "length (join_with SP p) \<le> length buf"
proof -
  let ?b = "if buf \<noteq> [] \<and> last buf = CR then butlast buf else buf"
  from assms have p: "p = split_on SP ?b" and pr: "\<not> list_ex (\<lambda>b. byte b < 32 \<or> 126 < byte b) ?b"
    by (auto simp: line_fields_def Let_def split: if_split_asm)
  show "p \<noteq> []" using p by simp
  show "length (join_with SP p) \<le> length buf" unfolding p join_split by simp
  fix f c assume fc: "f \<in> set p" "c \<in> set f"
  then have "c \<noteq> SP" "c \<in> set ?b"
    using p split_on_no_sep split_on_subset by blast+
  with pr have "32 \<le> byte c" "byte c \<le> 126" by (auto simp: list_ex_iff)
  moreover have "byte c \<noteq> 32"
    using byte_inj [of c SP] \<open>c \<noteq> SP\<close> by (simp add: byte_def)
  ultimately show "33 \<le> byte c \<and> byte c \<le> 126" by simp
qed

text \<open>A well-formed header line reads back as its fields.\<close>

definition header_ok :: "string \<Rightarrow> bool" where
  "header_ok h \<longleftrightarrow> h \<noteq> [] \<and> list_all (\<lambda>b. 32 \<le> byte b \<and> byte b \<le> 126) h"

lemma line_fields_header: "header_ok h \<Longrightarrow> line_fields h = Inr (split_on SP h)"
proof -
  assume h: "header_ok h"
  then have "last h \<in> set h" by (simp add: header_ok_def)
  then have "32 \<le> byte (last h)" using h by (auto simp: header_ok_def list_all_iff)
  moreover have "byte CR = 13" by (simp add: byte_def)
  ultimately have "last h \<noteq> CR" by auto
  with h show ?thesis
    by (auto simp: line_fields_def header_ok_def list_ex_iff list_all_iff Let_def)
qed

lemma header_ok_no_LF: "header_ok h \<Longrightarrow> LF \<notin> set h"
proof
  assume "header_ok h" "LF \<in> set h"
  then have "32 \<le> byte LF" by (auto simp: header_ok_def list_all_iff)
  then show False by (simp add: byte_def)
qed


section \<open>Both readers are byte sources\<close>

text \<open>Reading touches the clock and the unread bytes, nothing else; on the wire at most
  the decrypted bytes change.\<close>

definition reads_only :: "world \<Rightarrow> world \<Rightarrow> bool" where
  "reads_only w w1 \<longleftrightarrow> evolves w w1 \<and>
     w_sent w1 = w_sent w \<and> w_closed w1 = w_closed w \<and> w_next w1 = w_next w \<and>
     w_dialed w1 = w_dialed w \<and> w_verified w1 = w_verified w \<and> w_armed w1 = w_armed w \<and> w_rands w1 = w_rands w \<and>
     w_writes w1 = w_writes w \<and> w_dials w1 = w_dials w \<and> w_arms w1 = w_arms w \<and> w_tls w1 = w_tls w"

text \<open>Reading from connection \<open>i\<close> leaves the other connections alone.\<close>

definition reads_on :: "nat \<Rightarrow> world \<Rightarrow> world \<Rightarrow> bool" where
  "reads_on i w w1 \<longleftrightarrow> reads_only w w1 \<and> (\<forall>j. j \<noteq> i \<longrightarrow> w_inbox w1 j = w_inbox w j)"

definition wire_reads :: "wire \<times> world \<Rightarrow> wire \<times> world \<Rightarrow> bool" where
  "wire_reads s t \<longleftrightarrow> wi_conn (fst t) = wi_conn (fst s) \<and> wi_key (fst t) = wi_key (fst s)
     \<and> reads_on (wi_conn (fst s)) (snd s) (snd t)"

text \<open>A transport error, or one of the errors of a bad or rejecting reply.\<close>

definition reply_class :: "go_error \<Rightarrow> bool" where
  "reply_class e \<longleftrightarrow> e = ErrProtocol \<or> e = ErrServer \<or> e = ErrAuthentication"

definition wire_failure :: "go_error \<Rightarrow> bool" where
  "wire_failure e \<longleftrightarrow> (\<exists>t m. e = NetErr t m) \<or> reply_class e"

lemma reply_class_simps [simp]:
  "reply_class ErrProtocol" "reply_class ErrServer" "reply_class ErrAuthentication"
  by (simp_all add: reply_class_def)

lemma reply_class_public: "reply_class e \<Longrightarrow> plain_public e"
  by (auto simp: reply_class_def)

lemma wire_failure_KErr: "wire_failure e \<Longrightarrow> is_KErr e \<Longrightarrow> reply_class e"
  by (auto simp: wire_failure_def)

lemma reads_only_refl [simp]: "reads_only w w"
  by (simp add: reads_only_def)

lemma reads_only_trans: "reads_only a b \<Longrightarrow> reads_only b c \<Longrightarrow> reads_only a c"
  by (auto simp: reads_only_def intro: evolves_trans)

lemma reads_on_refl [simp]: "reads_on i w w"
  by (simp add: reads_on_def)

lemma reads_on_trans: "reads_on i a b \<Longrightarrow> reads_on i b c \<Longrightarrow> reads_on i a c"
  by (auto simp: reads_on_def intro: reads_only_trans)

lemma wire_reads_refl [simp]: "wire_reads s s"
  by (simp add: wire_reads_def)

lemma wire_reads_trans: "wire_reads a b \<Longrightarrow> wire_reads b c \<Longrightarrow> wire_reads a c"
  by (auto simp: wire_reads_def intro: reads_on_trans)

lemma read_byte_reads: "read_byte i w = (r, w1) \<Longrightarrow> reads_on i w w1"
  by (frule read_byte_evolves) (auto simp: reads_on_def reads_only_def read_byte_def Let_def split: list.splits)

lemma read_full_reads: "read_full i n w = (r, w1) \<Longrightarrow> reads_on i w w1"
  by (induction i n w arbitrary: r w1 rule: read_full.induct)
    (auto split: prod.splits sum.splits dest: read_byte_reads intro: reads_on_trans)

lemma read_byte_failure: "read_byte i w = (Inl e, w1) \<Longrightarrow> wire_failure e"
  by (auto simp: read_byte_def Let_def wire_failure_def net_error_def split: list.splits sum.splits)

lemma read_full_failure: "read_full i n w = (Inl e, w1) \<Longrightarrow> wire_failure e"
  by (induction i n w arbitrary: e w1 rule: read_full.induct)
    (auto split: prod.splits sum.splits dest: read_byte_failure)

text \<open>The bytes that will arrive on a connection before its first error.\<close>

fun arrived :: "rx list \<Rightarrow> bytes" where
  "arrived (Inr b # xs) = b # arrived xs"
| "arrived _ = []"

lemma arrived_append [simp]: "arrived (map Inr bs @ xs) = bs @ arrived xs"
  by (induction bs) auto

lemma arrived_ConsE: "arrived xs = b # bs \<Longrightarrow> \<exists>ys. xs = Inr b # ys \<and> arrived ys = bs"
  by (cases xs rule: arrived.cases) auto

interpretation conn_source: byte_source "read_byte i" "reads_on i" "\<lambda>w bs. arrived (w_inbox w i) = bs" wire_failure
  by unfold_locales
    (auto intro: reads_on_trans read_byte_reads read_byte_failure dest!: arrived_ConsE
      simp: read_byte_def Let_def)

interpretation raw_src: byte_source raw_source wire_reads
  "\<lambda>(wi, w) bs. arrived (w_inbox w (wi_conn wi)) = bs" wire_failure
proof unfold_locales
  fix s :: "wire \<times> world" and b bs
  assume "(case s of (wi, w) \<Rightarrow> \<lambda>bs. arrived (w_inbox w (wi_conn wi)) = bs) (b # bs)"
  then show "\<exists>t. raw_source s = (Inr b, t) \<and> (case t of (wi, w) \<Rightarrow> \<lambda>bs. arrived (w_inbox w (wi_conn wi)) = bs) bs"
    using conn_source.rd_offers by (fastforce simp: raw_source_def split: prod.splits)
qed (auto simp: raw_source_def wire_reads_def
    intro: reads_on_trans read_byte_reads read_byte_failure split: prod.splits)

lemma fill_reads:
  "fill C mx wi w = (r, wi1, w1) \<Longrightarrow> wire_reads (wi, w) (wi1, w1)"
  by (auto simp: fill_def rawBytes_def wire_reads_def split: prod.splits sum.splits option.splits if_splits
      dest!: conn_source.line_step read_full_reads intro: reads_on_trans)

lemma expect_error: "expect p tag n auth = Some e \<Longrightarrow> e = ErrAuthentication \<or> e = ErrServer \<or> e = ErrProtocol"
  by (auto simp: expect_def split: if_splits)

lemma wire_failure_sentinels [simp]:
  "wire_failure ErrProtocol" "wire_failure ErrServer" "wire_failure ErrAuthentication"
  "wire_failure (NetErr t m)"
  by (simp_all add: wire_failure_def)

lemma fill_failure: "fill C mx wi w = (Some e, wi1, w1) \<Longrightarrow> wire_failure e"
  by (auto simp: fill_def rawBytes_def split: prod.splits sum.splits option.splits if_splits
      dest!: conn_source.line_failure read_full_failure expect_error)

lemma fill_loop_props:
  "fill_loop C n mx wi w = (r, wi1, w1) \<Longrightarrow>
     wire_reads (wi, w) (wi1, w1) \<and> (\<forall>e. r = Some e \<longrightarrow> wire_failure e) \<and>
     (r = None \<longrightarrow> n \<le> length (wi_plain wi1))"
proof (induction C n mx wi w rule: fill_loop.induct)
  case (1 C n mx wi w)
  show ?case
  proof (cases "length (wi_plain wi) < n")
    case True
    obtain x wi2 w2 where f: "fill C mx wi w = (x, wi2, w2)" by (metis prod_cases3)
    note reads = fill_reads [OF f]
    show ?thesis
    proof (cases x)
      case None
      with True f "1.prems" have "fill_loop C n mx wi2 w2 = (r, wi1, w1)"
        by (simp add: fill_loop.simps [of C n mx wi w])
      with "1.IH" [OF True f [symmetric] None refl] reads show ?thesis
        by (blast intro: wire_reads_trans)
    next
      case (Some e)
      with True f "1.prems" reads show ?thesis
        by (auto simp: fill_loop.simps [of C n mx wi w] dest: fill_failure)
    qed
  next
    case False
    with "1.prems" show ?thesis by (simp add: fill_loop.simps [of C n mx wi w])
  qed
qed

lemma wire_bytes_props:
  assumes "wire_bytes C n mx wi w = (r, wi1, w1)"
  shows "wire_reads (wi, w) (wi1, w1)" "r = Inl e \<Longrightarrow> wire_failure e" "r = Inr b \<Longrightarrow> length b = n"
proof -
  show "wire_reads (wi, w) (wi1, w1)"
    using assms by (auto simp: wire_bytes_def rawBytes_def wire_reads_def split: prod.splits option.splits if_splits
        dest: read_full_reads fill_loop_props)
  show "r = Inl e \<Longrightarrow> wire_failure e"
    using assms by (auto simp: wire_bytes_def rawBytes_def split: prod.splits option.splits if_splits
        dest: read_full_failure fill_loop_props)
  show "r = Inr b \<Longrightarrow> length b = n"
    using assms by (auto simp: wire_bytes_def rawBytes_def split: prod.splits option.splits if_splits
        dest: read_full_consumes fill_loop_props)
qed

text \<open>What is already decrypted is delivered without touching the connection.\<close>

lemma wire_bytes_buffered:
  "wi_key wi \<noteq> None \<Longrightarrow> n \<le> length (wi_plain wi) \<Longrightarrow>
     wire_bytes C n mx wi w = (Inr (take n (wi_plain wi)), wi\<lparr>wi_plain := drop n (wi_plain wi)\<rparr>, w)"
  by (auto simp: wire_bytes_def fill_loop.simps)

interpretation secure_src: byte_source "secure_source C mx" wire_reads
  "\<lambda>(wi, w) bs. wi_key wi \<noteq> None \<and> wi_plain wi = bs" wire_failure
proof unfold_locales
  fix s :: "wire \<times> world" and b bs
  assume "(case s of (wi, w) \<Rightarrow> \<lambda>bs. wi_key wi \<noteq> None \<and> wi_plain wi = bs) (b # bs)"
  then show "\<exists>t. secure_source C mx s = (Inr b, t) \<and> (case t of (wi, w) \<Rightarrow> \<lambda>bs. wi_key wi \<noteq> None \<and> wi_plain wi = bs) bs"
    by (cases s) (auto simp: secure_source_def wire_bytes_buffered)
qed (auto simp: secure_source_def wire_reads_trans split: prod.splits sum.splits
    dest: wire_bytes_props(1,2))

lemma header_reads: "header C mx wi w = (r, wi1, w1) \<Longrightarrow> wire_reads (wi, w) (wi1, w1)"
  by (auto simp: header_def split: if_splits dest: raw_src.line_step secure_src.line_step)

lemma header_failure: "header C mx wi w = (Inl e, wi1, w1) \<Longrightarrow> wire_failure e"
  by (auto simp: header_def split: if_splits dest!: raw_src.line_failure secure_src.line_failure)

lemma line_Inr: "line rd s = (Inr p, t) \<Longrightarrow> \<exists>buf. line_fields buf = Inr p"
  by (auto simp: line_def split: prod.splits sum.splits)

text \<open>An accepted header has fields of printable characters without spaces, and is short.\<close>

lemma header_fields:
  assumes "header C mx wi w = (Inr p, wi1, w1)"
  shows "p \<noteq> [] \<and> length (join_with SP p) \<le> maxHeader \<and>
    (\<forall>f \<in> set p. \<forall>c \<in> set f. 33 \<le> byte c \<and> byte c \<le> 126)"
proof -
  from assms have "line raw_source (wi, w) = (Inr p, wi1, w1) \<or> line (secure_source C mx) (wi, w) = (Inr p, wi1, w1)"
    by (simp add: header_def split: if_split_asm)
  then obtain buf where "length buf \<le> maxHeader" "line_fields buf = Inr p"
    by (elim disjE) (blast dest: raw_src.line_result secure_src.line_result)+
  with line_fields_ok [OF this(2)] show ?thesis by fastforce
qed

lemma header_not_Nil: "header C mx wi w = (Inr p, wi1, w1) \<Longrightarrow> p \<noteq> []"
  by (auto simp: header_def split: if_splits dest!: line_Inr dest: line_fields_ok(1))

text \<open>A header line that is on its way in the clear is read whole.\<close>

lemma header_raw:
  assumes "wi_key wi = None" "arrived (w_inbox w (wi_conn wi)) = h @ LF # rest" "header_ok h"
    "length h \<le> maxHeader"
  shows "\<exists>wi1 w1. header C mx wi w = (Inr (split_on SP h), wi1, w1) \<and> wi_conn wi1 = wi_conn wi
    \<and> wi_key wi1 = None \<and> arrived (w_inbox w1 (wi_conn wi)) = rest"
proof -
  from raw_src.line_offers [of "(wi, w)" h rest] assms header_ok_no_LF [OF assms(3)]
  obtain wi1 w1 where t: "line raw_source (wi, w) = (line_fields h, wi1, w1)"
    "arrived (w_inbox w1 (wi_conn wi1)) = rest" by auto
  have "header C mx wi w = (Inr (split_on SP h), wi1, w1)"
    using t assms by (simp add: header_def line_fields_header)
  with header_reads [OF this] t assms(1) show ?thesis by (auto simp: wire_reads_def)
qed

end
