(* ===== verification/Exchange.thy ===== *)
theory Exchange
  imports Wire
begin

text \<open>
  The second half of \<open>wire.go\<close>: deadlines, one request/reply exchange, and the
  handshake of a new connection.
\<close>


section \<open>Deadlines and the write loop\<close>

definition deadline :: "ctx \<Rightarrow> int \<Rightarrow> int \<Rightarrow> int" where
  "deadline c d now =
     (let t = now + d in
      case ctx_deadline c of Some e \<Rightarrow> if e < t then e else t | None \<Rightarrow> t)"

text \<open>The loop that sends the frame; the first component is the error, the second whether
  a write has been attempted.\<close>

function write_loop :: "ctx \<Rightarrow> nat \<Rightarrow> bytes \<Rightarrow> bool \<Rightarrow> world \<Rightarrow> go_error option \<times> bool \<times> world" where
  "write_loop c i frame attempted w =
     (if frame = [] then (None, attempted, w)
      else case ctx_Err c w of
        (Some e, w1) \<Rightarrow> (Some e, attempted, w1)
      | (None, w1) \<Rightarrow>
        (case conn_write i frame w1 of
           ((n, Some err), w2) \<Rightarrow> (let (e, w3) = ioError c err w2 in (Some e, True, w3))
         | ((n, None), w2) \<Rightarrow>
             if n = 0 then (Some ErrConnection, True, w2)
             else write_loop c i (drop n frame) True w2))"
  by pat_completeness auto
termination
  by (relation "measure (\<lambda>(c, i, frame, a, w). length frame)") auto

declare write_loop.simps [simp del]


section \<open>exchange\<close>

type_synonym 'a reply = "wire \<Rightarrow> world \<Rightarrow> (go_error + 'a) \<times> wire \<times> world"

definition request_ok :: "Options \<Rightarrow> string \<Rightarrow> bytes \<Rightarrow> bool" where
  "request_ok opts hdr body \<longleftrightarrow>
     \<not> (maxHeader < length hdr \<or> contains_any hdr [CR, LF, NUL] \<or> MaxFrameBytes opts < int (length body))"

text \<open>The bytes of a request on the socket: header line and body, sealed in one \<open>SEC\<close> frame
  when the connection has a key.\<close>

definition request_frame :: "crypto \<Rightarrow> wire \<Rightarrow> string \<Rightarrow> bytes \<Rightarrow> world \<Rightarrow> (go_error + bytes) \<times> world" where
  "request_frame C wi hdr body w =
     (let frame = hdr @ [LF] @ body in
      case wi_key wi of
        None \<Rightarrow> (Inr frame, w)
      | Some key \<Rightarrow>
        (case encrypt C key frame w of
           (Inl e, w1) \<Rightarrow> (Inl e, w1)
         | (Inr cipher, w1) \<Rightarrow> (Inr (''SEC '' @ dec (length cipher) @ [LF] @ cipher), w1)))"

text \<open>The sending half of \<open>exchange\<close>: the error, whether a write was attempted, the world.\<close>

definition send_request ::
  "crypto \<Rightarrow> ctx \<Rightarrow> Options \<Rightarrow> string \<Rightarrow> bytes \<Rightarrow> wire \<Rightarrow> world \<Rightarrow> go_error option \<times> bool \<times> world" where
  "send_request C c opts hdr body wi w =
     (case ctx_Err c w of
        (Some e, w1) \<Rightarrow> (Some e, False, w1)
      | (None, w1) \<Rightarrow>
        if \<not> request_ok opts hdr body then (Some ErrInvalidInput, False, w1)
        else case request_frame C wi hdr body w1 of
          (Inl e, w2) \<Rightarrow> (Some e, False, w2)
        | (Inr frame, w2) \<Rightarrow>
          (case conn_arm (wi_conn wi) (deadline c (WriteTimeout opts) (w_clock w2)) w2 of
             (Some err, w3) \<Rightarrow> (let (e, w4) = ioError c err w3 in (Some e, False, w4))
           | (None, w3) \<Rightarrow> write_loop c (wi_conn wi) frame False w3))"

text \<open>The receiving half.  A \<open>*Error\<close> of the reader is returned as it is, any other error
  goes through \<open>ioError\<close>.\<close>

definition await_reply ::
  "ctx \<Rightarrow> Options \<Rightarrow> 'a reply \<Rightarrow> wire \<Rightarrow> world \<Rightarrow> (go_error + 'a) \<times> wire \<times> world" where
  "await_reply c opts reply wi w =
     (case conn_arm (wi_conn wi) (deadline c (ReadTimeout opts) (w_clock w)) w of
        (Some err, w1) \<Rightarrow> (let (e, w2) = ioError c err w1 in (Inl e, wi, w2))
      | (None, w1) \<Rightarrow>
        (case ctx_Err c w1 of
           (Some e, w2) \<Rightarrow> (Inl e, wi, w2)
         | (None, w2) \<Rightarrow>
           (case reply wi w2 of
              (Inr v, wi1, w3) \<Rightarrow> (Inr v, wi1, w3)
            | (Inl e, wi1, w3) \<Rightarrow>
                if is_KErr e then (Inl e, wi1, w3)
                else (let (e1, w4) = ioError c e w3 in (Inl e1, wi1, w4)))))"

text \<open>
  The result, whether a write was attempted, and the connection and world afterwards.
  The cancellation callback only shortens the socket's deadlines, which the scripts of
  the world cover; it has no state of its own.
\<close>

definition exchange ::
  "crypto \<Rightarrow> ctx \<Rightarrow> Options \<Rightarrow> string \<Rightarrow> bytes \<Rightarrow> 'a reply \<Rightarrow> wire \<Rightarrow> world
     \<Rightarrow> (go_error + 'a) \<times> bool \<times> wire \<times> world" where
  "exchange C c opts hdr body reply wi w =
     (case send_request C c opts hdr body wi w of
        (Some e, attempted, w1) \<Rightarrow> (Inl e, attempted, wi, w1)
      | (None, attempted, w1) \<Rightarrow>
        (let (r, wi1, w2) = await_reply c opts reply wi w1 in (r, attempted, wi1, w2)))"


section \<open>handshake\<close>

definition ack ::
  "crypto \<Rightarrow> ctx \<Rightarrow> Options \<Rightarrow> string \<Rightarrow> string \<Rightarrow> nat \<Rightarrow> bool \<Rightarrow> wire \<Rightarrow> world
     \<Rightarrow> (go_error + string list) \<times> wire \<times> world" where
  "ack C c opts h tag n auth wi w =
     (case exchange C c opts h [] (header C (MaxFrameBytes opts)) wi w of
        (Inl e, _, wi1, w1) \<Rightarrow> (Inl e, wi1, w1)
      | (Inr p, _, wi1, w1) \<Rightarrow>
        (case expect p tag n auth of
           Some e \<Rightarrow> (Inl e, wi1, w1)
         | None \<Rightarrow> (Inr p, wi1, w1)))"

definition auth_tag :: string where "auth_tag = ''koutendb-auth-v1''"

text \<open>The answer to a challenge: a box key from the secret, and the sealed credentials.\<close>

definition auth_message :: "Credentials \<Rightarrow> string \<Rightarrow> bytes" where
  "auth_message cr chal =
     auth_tag @ [LF] @ Username cr @ [LF] @ Password cr @ [LF] @ chal"

definition box_key :: "crypto \<Rightarrow> Credentials \<Rightarrow> bytes" where
  "box_key C cr = derive C [auth_tag @ [NUL] @ ''box'' @ [NUL], SecretKey cr]"

definition transport_key :: "crypto \<Rightarrow> Credentials \<Rightarrow> string \<Rightarrow> bytes" where
  "transport_key C cr chal =
     derive C [auth_tag @ [NUL] @ ''transport'' @ [NUL], chal, [NUL], SecretKey cr]"

definition hs_auth ::
  "crypto \<Rightarrow> ctx \<Rightarrow> Options \<Rightarrow> wire \<Rightarrow> world \<Rightarrow> go_error option \<times> wire \<times> world" where
  "hs_auth C c opts wi w =
     (let cr = Creds opts in
      if Username cr = [] then (None, wi, w)
      else if SecretKey cr = [] then
        (case ack C c opts (''AUTH '' @ Username cr @ '' '' @ Password cr) ''OK'' 2 True wi w of
           (Inl e, wi1, w1) \<Rightarrow> (Some e, wi1, w1)
         | (Inr _, wi1, w1) \<Rightarrow> (None, wi1, w1))
      else
        (case ack C c opts (''AUTHCHAL '' @ Username cr) ''CHAL'' 2 True wi w of
           (Inl e, wi1, w1) \<Rightarrow> (Some e, wi1, w1)
         | (Inr p, wi1, w1) \<Rightarrow>
           (case hex_decode (p ! 1) of
              None \<Rightarrow> (Some ErrProtocol, wi1, w1)
            | Some challenge \<Rightarrow>
              if length challenge \<noteq> 32 then (Some ErrProtocol, wi1, w1)
              else case encrypt C (box_key C cr) (auth_message cr (p ! 1)) w1 of
                (Inl e, w2) \<Rightarrow> (Some e, wi1, w2)
              | (Inr cipher, w2) \<Rightarrow>
                (case ack C c opts (''AUTHRESP '' @ hex_encode cipher) ''OK'' 2 True wi1 w2 of
                   (Inl e, wi3, w3) \<Rightarrow> (Some e, wi3, w3)
                 | (Inr _, wi3, w3) \<Rightarrow>
                     (None, wi3\<lparr>wi_key := Some (transport_key C cr (p ! 1))\<rparr>, w3)))))"

definition hs_galaxy ::
  "crypto \<Rightarrow> ctx \<Rightarrow> Options \<Rightarrow> wire \<Rightarrow> world \<Rightarrow> go_error option \<times> wire \<times> world" where
  "hs_galaxy C c opts wi w =
     (if Galaxy opts = [] then (None, wi, w)
      else case ack C c opts (''HELLO '' @ Galaxy opts) ''OK'' 2 True wi w of
          (Inl e, wi1, w1) \<Rightarrow> (Some e, wi1, w1)
        | (Inr _, wi1, w1) \<Rightarrow> (None, wi1, w1))"

definition hs_version ::
  "crypto \<Rightarrow> ctx \<Rightarrow> Options \<Rightarrow> wire \<Rightarrow> world \<Rightarrow> go_error option \<times> wire \<times> world" where
  "hs_version C c opts wi w =
     (case ack C c opts ''WIREVER'' ''WIREVER'' 2 True wi w of
        (Inl e, wi1, w1) \<Rightarrow> (Some e, wi1, w1)
      | (Inr p, wi1, w1) \<Rightarrow>
        if p ! 1 \<noteq> ''1'' then (Some ErrVersionMismatch, wi1, w1)
        else case ack C c opts ''CODECMETA ON'' ''OK'' 2 False wi1 w1 of
            (Inl e, wi2, w2) \<Rightarrow> (Some e, wi2, w2)
          | (Inr q, wi2, w2) \<Rightarrow>
              if q ! 1 \<noteq> ''codec-metadata'' then (Some ErrProtocol, wi2, w2) else (None, wi2, w2))"

definition handshake ::
  "crypto \<Rightarrow> ctx \<Rightarrow> Options \<Rightarrow> wire \<Rightarrow> world \<Rightarrow> go_error option \<times> wire \<times> world" where
  "handshake C c opts wi w =
     (case hs_auth C c opts wi w of
        (Some e, wi1, w1) \<Rightarrow> (Some e, wi1, w1)
      | (None, wi1, w1) \<Rightarrow>
        (case hs_galaxy C c opts wi1 w1 of
           (Some e, wi2, w2) \<Rightarrow> (Some e, wi2, w2)
         | (None, wi2, w2) \<Rightarrow> hs_version C c opts wi2 w2))"

end
