(* ===== verification/Client.thy ===== *)
theory Client
  imports Exchange "HOL-Library.AList"
begin

text \<open>
  \<open>client.go\<close>: the client, its lazily opened connections, and its operations.  A method
  of a nil or zero \<open>*Client\<close> gets \<open>None\<close> for the client.  Each definition is one
  operation run with the gate held; \<open>lock\<close> contributes the checks made when the gate is
  obtained, and the theory \<open>Gate\<close> treats the gate itself.
\<close>


section \<open>State\<close>

text \<open>\<open>cl_conns\<close> is the map from node numbers to connections, as a list with distinct keys;
  its order stands for the order in which Go happens to range over the map.\<close>

record client =
  cl_peers :: "string list"
  cl_opts :: Options
  cl_tls :: "tls_config option"
  cl_conns :: "(int \<times> wire) list"
  cl_closed :: bool

definition store :: "int \<Rightarrow> wire \<Rightarrow> client \<Rightarrow> client" where
  "store n wi c = c\<lparr>cl_conns := AList.update n wi (cl_conns c)\<rparr>"

text \<open>The connections are closed one after the other; the result holds what is left of them
  in memory.\<close>

fun close_all :: "wire list \<Rightarrow> world \<Rightarrow> wire list \<times> world" where
  "close_all [] w = ([], w)"
| "close_all (wi # wis) w =
     (let (wi1, w1) = wire_close wi w; (wis1, w2) = close_all wis w1 in (wi1 # wis1, w2))"

definition drop_conns :: "client \<Rightarrow> world \<Rightarrow> client \<times> world" where
  "drop_conns c w = (c\<lparr>cl_conns := []\<rparr>, snd (close_all (map snd (cl_conns c)) w))"

text \<open>\<open>lock\<close>: once the gate is obtained or the context is done.\<close>

definition lock :: "ctx option \<Rightarrow> client option \<Rightarrow> world \<Rightarrow> go_error option \<times> world" where
  "lock cx h w =
     (case h of None \<Rightarrow> (Some ErrClosed, w)
      | Some c \<Rightarrow>
        (case cx of None \<Rightarrow> (Some ErrInvalidInput, w)
         | Some ctx \<Rightarrow>
           (case ctx_Err ctx w of
              (Some e, w1) \<Rightarrow> (Some e, w1)
            | (None, w1) \<Rightarrow> (if cl_closed c then Some ErrClosed else None, w1))))"

definition Close :: "client option \<Rightarrow> world \<Rightarrow> client option \<times> world" where
  "Close h w =
     (case h of None \<Rightarrow> (None, w)
      | Some c \<Rightarrow>
        (let (c1, w1) = drop_conns c w in
         (Some (c1\<lparr>cl_closed := True, cl_opts := (cl_opts c1)\<lparr>Creds := no_credentials\<rparr>\<rparr>), w1)))"


section \<open>ensure and Dial\<close>

text \<open>The configuration of the TLS client of a peer: without an explicit server name, the
  host of the address is verified.\<close>

definition tls_client_config :: "tls_config \<Rightarrow> string \<Rightarrow> tls_config" where
  "tls_client_config cfg peer =
     (if cfg_ServerName cfg = []
      then cfg\<lparr>cfg_ServerName := (case SplitHostPort peer of None \<Rightarrow> [] | Some (host, _) \<Rightarrow> host)\<rparr>
      else cfg)"

text \<open>The TLS step of \<open>ensure\<close> on a dialed connection.\<close>

definition start_tls :: "tls_config option \<Rightarrow> string \<Rightarrow> nat \<Rightarrow> world \<Rightarrow> go_error option \<times> world" where
  "start_tls tls peer i w =
     (case tls of None \<Rightarrow> (None, w)
      | Some cfg0 \<Rightarrow>
        (let cfg = tls_client_config cfg0 peer
         in tls_handshake i (cfg_ServerName cfg) (cfg_InsecureSkipVerify cfg) w))"

text \<open>The steps of \<open>ensure\<close> after the dial; the deferred close of a failed connection is in
  \<open>ensure\<close>.\<close>

definition prepare ::
  "crypto \<Rightarrow> ctx \<Rightarrow> ctx \<Rightarrow> client \<Rightarrow> int \<Rightarrow> nat \<Rightarrow> world \<Rightarrow> go_error option \<times> wire \<times> world" where
  "prepare C cx dialctx c node i w =
     (let wi = \<lparr>wi_conn = i, wi_key = None, wi_plain = []\<rparr> in
      case start_tls (cl_tls c) (cl_peers c ! nat node) i w of
        (Some err, w1) \<Rightarrow> (let (e, w2) = ioError cx err w1 in (Some e, wi, w2))
      | (None, w1) \<Rightarrow>
        (case handshake C dialctx (cl_opts c) wi w1 of
           (None, wi1, w2) \<Rightarrow> (None, wi1, w2)
         | (Some err, wi1, w2) \<Rightarrow>
           (case ctx_Err cx w2 of
              (Some e, w3) \<Rightarrow> (Some e, wi1, w3)
            | (None, w3) \<Rightarrow>
                (Some (if errors_Is err DeadlineExceeded then ErrTimeout else err), wi1, w3))))"

definition ensure ::
  "crypto \<Rightarrow> ctx \<Rightarrow> client \<Rightarrow> int \<Rightarrow> world \<Rightarrow> (go_error + wire) \<times> client \<times> world" where
  "ensure C cx c node w =
     (if cl_closed c then (Inl ErrClosed, c, w)
      else if node < 0 \<or> int (length (cl_peers c)) \<le> node then (Inl ErrProtocol, c, w)
      else case map_of (cl_conns c) node of
        Some wi \<Rightarrow> (Inr wi, c, w)
      | None \<Rightarrow>
        (let dialctx = with_timeout cx (ConnectTimeout (cl_opts c)) (w_clock w) in
         case net_dial (cl_peers c ! nat node) w of
           (Inl err, w1) \<Rightarrow> (let (e, w2) = ioError cx err w1 in (Inl e, c, w2))
         | (Inr i, w1) \<Rightarrow>
           (case prepare C cx dialctx c node i w1 of
              (Some e, wi, w2) \<Rightarrow> (Inl e, c, snd (wire_close wi w2))
            | (None, wi, w2) \<Rightarrow> (Inr wi, store node wi c, w2))))"

definition Dial ::
  "crypto \<Rightarrow> (string \<Rightarrow> bytes option) \<Rightarrow> ctx option \<Rightarrow> string list \<Rightarrow> Options \<Rightarrow> world
     \<Rightarrow> (go_error + client) \<times> world" where
  "Dial C load_ca cx peers options w =
     (case cx of None \<Rightarrow> (Inl ErrInvalidInput, w)
      | Some ctx \<Rightarrow>
        (case normalize load_ca peers options of
           Inl e \<Rightarrow> (Inl e, w)
         | Inr (o1, t) \<Rightarrow>
           (case ensure C ctx \<lparr>cl_peers = peers, cl_opts = o1, cl_tls = t, cl_conns = [], cl_closed = False\<rparr> 0 w of
              (Inl e, c, w1) \<Rightarrow> (Inl e, snd (drop_conns c w1))
            | (Inr _, c, w1) \<Rightarrow> (Inr c, w1))))"


section \<open>One exchange of the client\<close>

text \<open>\<open>ensure\<close> gives a pointer, so what the exchange does to the wire is seen through the
  map: the wire is written back.\<close>

definition exchange_on ::
  "crypto \<Rightarrow> ctx \<Rightarrow> client \<Rightarrow> int \<Rightarrow> string \<Rightarrow> bytes \<Rightarrow> 'a reply \<Rightarrow> wire \<Rightarrow> world
     \<Rightarrow> (go_error + 'a) \<times> bool \<times> client \<times> world" where
  "exchange_on C cx c node hdr body reply wi w =
     (let (r, attempted, wi1, w1) = exchange C cx (cl_opts c) hdr body reply wi w
      in (r, attempted, store node wi1 c, w1))"


section \<open>Writes\<close>

definition put_header :: "string \<Rightarrow> bytes \<Rightarrow> codec \<Rightarrow> string" where
  "put_header ring data cd =
     ''PUTR '' @ dec (length ring) @ '' '' @ dec (length data) @ '' 0 '' @ cd"

definition put_reply :: "crypto \<Rightarrow> int \<Rightarrow> ID reply" where
  "put_reply C mx wi w =
     (case header C mx wi w of
        (Inl e, wi1, w1) \<Rightarrow> (Inl e, wi1, w1)
      | (Inr p, wi1, w1) \<Rightarrow>
        (case expect p ''ID'' 7 False of
           Some e \<Rightarrow> (Inl e, wi1, w1)
         | None \<Rightarrow> (parseFields (drop 1 p), wi1, w1)))"

definition put_input_ok :: "client \<Rightarrow> string \<Rightarrow> bytes \<Rightarrow> codec \<Rightarrow> bool" where
  "put_input_ok c ring data cd \<longleftrightarrow>
     \<not> (ring = [] \<or> MaxFrameBytes (cl_opts c) < int (length ring) \<or>
        MaxFrameBytes (cl_opts c) - int (length ring) < int (length data) \<or> \<not> codec_Valid cd)"

text \<open>What the caller gets for a failed write.\<close>

definition put_error :: "bool \<Rightarrow> go_error \<Rightarrow> go_error" where
  "put_error attempted e =
     (if attempted \<and> \<not> errors_Is e ErrServer \<and> \<not> errors_Is e ErrAuthentication
      then KErr (err_kind ErrIndeterminateWrite) (err_message ErrIndeterminateWrite) (Some e)
      else e)"

text \<open>The write with the gate held.\<close>

definition put_locked :: "crypto \<Rightarrow> ctx \<Rightarrow> string \<Rightarrow> bytes \<Rightarrow> codec \<Rightarrow> client \<Rightarrow> world \<Rightarrow> (go_error + ID) \<times> client \<times> world" where
  "put_locked C cx ring data cd c w1 =
     (case ensure C cx c 0 w1 of
        (Inl e, c1, w2) \<Rightarrow> (Inl e, c1, w2)
      | (Inr wi, c1, w2) \<Rightarrow>
        (case exchange_on C cx c1 0 (put_header ring data cd) (ring @ data)
               (put_reply C (MaxFrameBytes (cl_opts c1))) wi w2 of
           (Inr i, _, c2, w3) \<Rightarrow> (Inr i, c2, w3)
         | (Inl e, attempted, c2, w3) \<Rightarrow>
           (let (c3, w4) = drop_conns c2 w3 in (Inl (put_error attempted e), c3, w4))))"

definition PutCodec ::
  "crypto \<Rightarrow> ctx option \<Rightarrow> client option \<Rightarrow> string \<Rightarrow> bytes \<Rightarrow> codec \<Rightarrow> world
     \<Rightarrow> (go_error + ID) \<times> client option \<times> world" where
  "PutCodec C cx h ring data cd w =
     (case h of None \<Rightarrow> (Inl ErrClosed, h, w)
      | Some c \<Rightarrow>
        if \<not> put_input_ok c ring data cd then (Inl ErrInvalidInput, h, w)
        else case lock cx h w of
          (Some e, w1) \<Rightarrow> (Inl e, h, w1)
        | (None, w1) \<Rightarrow>
          (let (r, c1, w2) = put_locked C (the cx) ring data cd c w1 in (r, Some c1, w2)))"

definition Put ::
  "crypto \<Rightarrow> ctx option \<Rightarrow> client option \<Rightarrow> string \<Rightarrow> bytes \<Rightarrow> world
     \<Rightarrow> (go_error + ID) \<times> client option \<times> world" where
  "Put C cx h ring data w = PutCodec C cx h ring data Raw w"

text \<open>\<open>marshal\<close> is \<open>json.Marshal\<close>, \<open>None\<close> when it fails.\<close>

definition PutJSON ::
  "crypto \<Rightarrow> ('v \<Rightarrow> bytes option) \<Rightarrow> ctx option \<Rightarrow> client option \<Rightarrow> string \<Rightarrow> 'v \<Rightarrow> world
     \<Rightarrow> (go_error + ID) \<times> client option \<times> world" where
  "PutJSON C marshal cx h ring v w =
     (case marshal v of None \<Rightarrow> (Inl ErrInvalidInput, h, w)
      | Some b \<Rightarrow> PutCodec C cx h ring b JSON w)"


section \<open>Reads\<close>

text \<open>The loop of \<open>readOperation\<close>: \<open>n\<close> attempts are left.\<close>

type_synonym 'a op = "client \<Rightarrow> world \<Rightarrow> (go_error + 'a) \<times> client \<times> world"

definition retryable :: "client \<Rightarrow> go_error \<Rightarrow> bool" where
  "retryable c e \<longleftrightarrow> \<not> DisableReadRetry (cl_opts c) \<and> (errors_Is e ErrConnection \<or> errors_Is e ErrTimeout)"

fun attempts :: "ctx \<Rightarrow> 'a op \<Rightarrow> nat \<Rightarrow> 'a op" where
  "attempts cx oper 0 c w = (Inl ErrConnection, c, w)"
| "attempts cx oper (Suc n) c w =
     (case oper c w of
        (Inr v, c1, w1) \<Rightarrow> (Inr v, c1, w1)
      | (Inl err, c1, w1) \<Rightarrow>
        (let (c2, w2) = drop_conns c1 w1 in
         case ctx_Err cx w2 of
           (Some e, w3) \<Rightarrow> (Inl e, c2, w3)
         | (None, w3) \<Rightarrow>
           if n = 0 \<or> \<not> retryable c2 err then (Inl err, c2, w3)
           else attempts cx oper n c2 w3))"

definition readOperation ::
  "ctx option \<Rightarrow> client option \<Rightarrow> (ctx \<Rightarrow> 'a op) \<Rightarrow> world \<Rightarrow> (go_error + 'a) \<times> client option \<times> world" where
  "readOperation cx h oper w =
     (case lock cx h w of
        (Some e, w1) \<Rightarrow> (Inl e, h, w1)
      | (None, w1) \<Rightarrow>
        (let (r, c1, w2) = attempts (the cx) (oper (the cx)) 2 (the h) w1 in (r, Some c1, w2)))"

definition max_node :: "client \<Rightarrow> int" where
  "max_node c = int (length (cl_peers c)) - 1"

definition health_reply :: "crypto \<Rightarrow> int \<Rightarrow> int \<Rightarrow> string reply" where
  "health_reply C mx maxn wi w =
     (case header C mx wi w of
        (Inl e, wi1, w1) \<Rightarrow> (Inl e, wi1, w1)
      | (Inr p, wi1, w1) \<Rightarrow>
        (if p ! 0 = ''ERR'' then Inl ErrServer
         else if length p < 2 \<or> p ! 0 \<noteq> ''OK'' \<or> \<not> has_prefix (p ! 1) ''node='' then Inl ErrProtocol
         else case bounded (drop 5 (p ! 1)) maxn of
             Inl e \<Rightarrow> Inl e
           | Inr _ \<Rightarrow> Inr (join_with SP (drop 1 p)), wi1, w1))"

definition health_op :: "crypto \<Rightarrow> ctx \<Rightarrow> string op" where
  "health_op C cx c w =
     (case ensure C cx c 0 w of
        (Inl e, c1, w1) \<Rightarrow> (Inl e, c1, w1)
      | (Inr wi, c1, w1) \<Rightarrow>
        (let (r, _, c2, w2) = exchange_on C cx c1 0 ''HEALTH'' []
               (health_reply C (MaxFrameBytes (cl_opts c1)) (max_node c1)) wi w1
         in (r, c2, w2)))"

definition Health ::
  "crypto \<Rightarrow> ctx option \<Rightarrow> client option \<Rightarrow> world \<Rightarrow> (go_error + string) \<times> client option \<times> world" where
  "Health C cx h w = readOperation cx h (health_op C) w"

text \<open>What a reply to a read says: no such record, ask again for another identity (at
  another node, when one is named), or a value.\<close>

datatype read_outcome = Absent | Forward ID "int option" | Found Payload

definition absent_reply :: "string list \<Rightarrow> go_error + read_outcome" where
  "absent_reply p = (case expect p (p ! 0) 1 False of Some e \<Rightarrow> Inl e | None \<Rightarrow> Inr Absent)"

definition forward_reply :: "bool \<Rightarrow> int \<Rightarrow> string list \<Rightarrow> go_error + read_outcome" where
  "forward_reply final maxn p =
     (if final \<or> (length p \<noteq> 7 \<and> length p \<noteq> 8) then Inl ErrProtocol
      else case parseFields (take 6 (drop 1 p)) of
          Inl e \<Rightarrow> Inl e
        | Inr i \<Rightarrow>
          if length p = 8 then
            (case bounded (p ! 7) maxn of Inl e \<Rightarrow> Inl e | Inr n \<Rightarrow> Inr (Forward i (Some n)))
          else Inr (Forward i None))"

definition value_reply ::
  "crypto \<Rightarrow> int \<Rightarrow> int \<Rightarrow> string list \<Rightarrow> wire \<Rightarrow> world \<Rightarrow> (go_error + read_outcome) \<times> wire \<times> world" where
  "value_reply C mx maxn p wi w =
     (case expect p ''VAL'' 4 False of
        Some e \<Rightarrow> (Inl e, wi, w)
      | None \<Rightarrow>
        (case bounded (p ! 1) maxn of
           Inl e \<Rightarrow> (Inl e, wi, w)
         | Inr _ \<Rightarrow>
           (case bounded (p ! 2) mx of
              Inl e \<Rightarrow> (Inl e, wi, w)
            | Inr n \<Rightarrow>
              if \<not> codec_Valid (p ! 3) then (Inl ErrProtocol, wi, w)
              else case wire_bytes C (nat n) mx wi w of
                (Inl e, wi1, w1) \<Rightarrow> (Inl e, wi1, w1)
              | (Inr b, wi1, w1) \<Rightarrow> (Inr (Found \<lparr>Data = b, Codec = p ! 3\<rparr>), wi1, w1))))"

text \<open>\<open>final\<close>: no more redirect is allowed.\<close>

definition read_reply :: "crypto \<Rightarrow> int \<Rightarrow> int \<Rightarrow> bool \<Rightarrow> read_outcome reply" where
  "read_reply C mx maxn final wi w =
     (case header C mx wi w of
        (Inl e, wi1, w1) \<Rightarrow> (Inl e, wi1, w1)
      | (Inr p, wi1, w1) \<Rightarrow>
        if p ! 0 = ''MISS'' \<or> p ! 0 = ''GONE'' then (absent_reply p, wi1, w1)
        else if p ! 0 = ''FWD'' then (forward_reply final maxn p, wi1, w1)
        else value_reply C mx maxn p wi1 w1)"

text \<open>The request for an identity: \<open>GETID\<close>, or \<open>QRYID\<close> with a selection as its body.\<close>

definition read_header :: "ID \<Rightarrow> string option \<Rightarrow> string" where
  "read_header i sel =
     (let fields = replace_all COLON SP (ID_String i)
      in case sel of None \<Rightarrow> ''GETID '' @ fields
         | Some s \<Rightarrow> ''QRYID '' @ fields @ '' '' @ dec (length s))"

definition read_body :: "string option \<Rightarrow> bytes" where
  "read_body sel = (case sel of None \<Rightarrow> [] | Some s \<Rightarrow> s)"

text \<open>One round of the redirect loop.\<close>

definition read_once ::
  "crypto \<Rightarrow> ctx \<Rightarrow> string option \<Rightarrow> bool \<Rightarrow> ID \<Rightarrow> int \<Rightarrow> read_outcome op" where
  "read_once C cx sel final current node c w =
     (case ensure C cx c node w of
        (Inl e, c1, w1) \<Rightarrow> (Inl e, c1, w1)
      | (Inr wi, c1, w1) \<Rightarrow>
        (let (r, _, c2, w2) = exchange_on C cx c1 node (read_header current sel) (read_body sel)
               (read_reply C (MaxFrameBytes (cl_opts c1)) (max_node c1) final) wi w1
         in (r, c2, w2)))"

text \<open>The redirect loop of \<open>read\<close> from hop \<open>hops\<close> on; \<open>mr\<close> is \<open>MaxRedirects\<close>.\<close>

function read_hops ::
  "crypto \<Rightarrow> ctx \<Rightarrow> string option \<Rightarrow> int \<Rightarrow> int \<Rightarrow> ID \<Rightarrow> int \<Rightarrow> Payload option op" where
  "read_hops C cx sel mr hops current node c w =
     (if mr < hops then (Inl ErrProtocol, c, w)
      else case read_once C cx sel (hops = mr) current node c w of
        (Inl e, c1, w1) \<Rightarrow> (Inl e, c1, w1)
      | (Inr out, c1, w1) \<Rightarrow>
        (case out of
           Absent \<Rightarrow> (Inr None, c1, w1)
         | Found p \<Rightarrow> (Inr (Some p), c1, w1)
         | Forward i n \<Rightarrow>
             read_hops C cx sel mr (hops + 1) i (case n of None \<Rightarrow> node | Some k \<Rightarrow> k) c1 w1))"
  by pat_completeness auto
termination
  by (relation "measure (\<lambda>(C, cx, sel, mr, hops, current, node, c, w). nat (mr + 1 - hops))") auto

declare read_hops.simps [simp del]

definition read_op :: "crypto \<Rightarrow> ID \<Rightarrow> string option \<Rightarrow> ctx \<Rightarrow> Payload option op" where
  "read_op C i sel cx c w = read_hops C cx sel (MaxRedirects (cl_opts c)) 0 i 0 c w"

definition read_input_ok :: "client \<Rightarrow> ID \<Rightarrow> string option \<Rightarrow> bool" where
  "read_input_ok c i sel \<longleftrightarrow>
     \<not> (\<not> ID_valid i \<or> (case sel of None \<Rightarrow> False | Some s \<Rightarrow> MaxFrameBytes (cl_opts c) < int (length s)))"

definition read_record ::
  "crypto \<Rightarrow> ctx option \<Rightarrow> client option \<Rightarrow> ID \<Rightarrow> string option \<Rightarrow> world
     \<Rightarrow> (go_error + Payload option) \<times> client option \<times> world" where
  "read_record C cx h i sel w =
     (case h of None \<Rightarrow> (Inl ErrClosed, h, w)
      | Some c \<Rightarrow>
        if \<not> read_input_ok c i sel then (Inl ErrInvalidInput, h, w)
        else readOperation cx h (read_op C i sel) w)"

definition Get ::
  "crypto \<Rightarrow> ctx option \<Rightarrow> client option \<Rightarrow> ID \<Rightarrow> world
     \<Rightarrow> (go_error + Payload option) \<times> client option \<times> world" where
  "Get C cx h i w = read_record C cx h i None w"

definition Query ::
  "crypto \<Rightarrow> ctx option \<Rightarrow> client option \<Rightarrow> ID \<Rightarrow> string \<Rightarrow> world
     \<Rightarrow> (go_error + Payload option) \<times> client option \<times> world" where
  "Query C cx h i sel w = read_record C cx h i (Some sel) w"


section \<open>JSON\<close>

text \<open>\<open>json.Unmarshal\<close>, which may also write through its target when it fails; the
  failure tells whether \<open>errors.As\<close> finds an \<open>InvalidUnmarshalError\<close>.\<close>

datatype json_failure = InvalidTarget | BadJSON

type_synonym 'd unmarshal = "bytes \<Rightarrow> 'd \<Rightarrow> json_failure option \<times> 'd"

text \<open>The results: whether the record exists, the error, and the target afterwards.\<close>

definition decodeJSON :: "'d unmarshal \<Rightarrow> go_error + Payload option \<Rightarrow> 'd \<Rightarrow> bool \<times> go_error option \<times> 'd" where
  "decodeJSON unm r dst =
     (case r of
        Inl e \<Rightarrow> (False, Some e, dst)
      | Inr None \<Rightarrow> (False, None, dst)
      | Inr (Some p) \<Rightarrow>
        if Codec p \<noteq> JSON then (True, Some ErrProtocol, dst)
        else case unm (Data p) dst of
            (None, d) \<Rightarrow> (True, None, d)
          | (Some InvalidTarget, d) \<Rightarrow> (True, Some ErrInvalidInput, d)
          | (Some BadJSON, d) \<Rightarrow> (True, Some ErrProtocol, d))"

definition GetJSON ::
  "crypto \<Rightarrow> 'd unmarshal \<Rightarrow> ctx option \<Rightarrow> client option \<Rightarrow> ID \<Rightarrow> 'd \<Rightarrow> world
     \<Rightarrow> (bool \<times> go_error option \<times> 'd) \<times> client option \<times> world" where
  "GetJSON C unm cx h i dst w =
     (let (r, h1, w1) = Get C cx h i w in (decodeJSON unm r dst, h1, w1))"

definition QueryJSON ::
  "crypto \<Rightarrow> 'd unmarshal \<Rightarrow> ctx option \<Rightarrow> client option \<Rightarrow> ID \<Rightarrow> string \<Rightarrow> 'd \<Rightarrow> world
     \<Rightarrow> (bool \<times> go_error option \<times> 'd) \<times> client option \<times> world" where
  "QueryJSON C unm cx h i sel dst w =
     (let (r, h1, w1) = Query C cx h i sel w in (decodeJSON unm r dst, h1, w1))"

text \<open>\<open>String\<close> and \<open>GoString\<close> of a client tell nothing about it.\<close>

definition Client_String :: "client option \<Rightarrow> string" where
  "Client_String _ = ''KoutenDB TCP client''"

end
