(* ===== verification/Exchange_Laws.thy ===== *)
theory Exchange_Laws
  imports Exchange
begin

text \<open>
  What an exchange and a handshake do to the outside: the bytes written are a prefix of
  one request frame and all of it when the exchange succeeds, nothing is written unless a
  write was attempted, no connection is opened or closed, and every error is one the
  callers may see.
\<close>


section \<open>Sending\<close>

text \<open>\<open>sends i bs w w1\<close>: between \<open>w\<close> and \<open>w1\<close> exactly the bytes \<open>bs\<close> were written, on
  connection \<open>i\<close>; nothing was dialed or closed.\<close>

definition sends :: "nat \<Rightarrow> bytes \<Rightarrow> world \<Rightarrow> world \<Rightarrow> bool" where
  "sends i bs w w1 \<longleftrightarrow> evolves w w1 \<and> w_closed w1 = w_closed w \<and> w_next w1 = w_next w \<and>
     w_dialed w1 = w_dialed w \<and> w_verified w1 = w_verified w \<and> (\<exists>xs. w_sent w1 = w_sent w @ map (Pair i) xs \<and> concat xs = bs)"

lemma sends_refl [simp]: "sends i [] w w"
  by (auto simp: sends_def intro: exI [of _ "[]"])

lemma sends_trans: "sends i a w w1 \<Longrightarrow> sends i b w1 w2 \<Longrightarrow> sends i (a @ b) w w2"
proof -
  assume a: "sends i a w w1" and b: "sends i b w1 w2"
  from a obtain xs where xs: "w_sent w1 = w_sent w @ map (Pair i) xs" "concat xs = a"
    by (auto simp: sends_def)
  from b obtain ys where ys: "w_sent w2 = w_sent w1 @ map (Pair i) ys" "concat ys = b"
    by (auto simp: sends_def)
  have "w_sent w2 = w_sent w @ map (Pair i) (xs @ ys)" "concat (xs @ ys) = a @ b"
    using xs ys by simp_all
  with a b show ?thesis
    unfolding sends_def by (metis evolves_trans)
qed

lemma sends_evolves: "sends i bs w w1 \<Longrightarrow> evolves w w1"
  by (simp add: sends_def)

lemma reads_sends: "reads_only w w1 \<Longrightarrow> sends i [] w w1"
  by (auto simp: reads_only_def sends_def intro: exI [of _ "[]"])

lemma ctx_Err_sends: "ctx_Err c w = (r, w1) \<Longrightarrow> sends i [] w w1"
  by (frule ctx_Err_evolves) (auto simp: sends_def dest!: ctx_Err_tick intro: exI [of _ "[]"])

lemma ioError_sends: "ioError c e w = (r, w1) \<Longrightarrow> sends i [] w w1"
  by (auto simp: ioError_def split: prod.splits option.splits dest: ctx_Err_sends)

lemma conn_arm_sends: "conn_arm j t w = (r, w1) \<Longrightarrow> sends i [] w w1"
  by (frule conn_arm_evolves)
    (auto simp: sends_def conn_arm_def Let_def split: list.splits intro: exI [of _ "[]"])

lemma conn_write_sends:
  "conn_write i f w = ((n, r), w1) \<Longrightarrow> n \<le> length f \<and> sends i (take n f) w w1"
  by (frule conn_write_evolves)
    (auto simp: sends_def conn_write_def Let_def split: list.splits intro: exI [of _ "[f]"] exI [of _ "[take n f]"])

lemma request_frame_sends: "request_frame C wi hdr body w = (r, w1) \<Longrightarrow> sends i [] w w1"
proof -
  have "rand_nonce w = (x, w2) \<Longrightarrow> sends i [] w w2" for x w2
    by (frule rand_nonce_evolves)
      (auto simp: sends_def rand_nonce_def split: list.splits intro: exI [of _ "[]"])
  then show "request_frame C wi hdr body w = (r, w1) \<Longrightarrow> sends i [] w w1"
    by (auto simp: request_frame_def encrypt_def Let_def split: option.splits prod.splits sum.splits)
qed

lemma write_loop_props:
  "write_loop c i frame a w = (r, a1, w1) \<Longrightarrow>
     (\<exists>bs. sends i bs w w1 \<and> prefix bs frame \<and> (r = None \<longrightarrow> bs = frame) \<and> (bs \<noteq> [] \<longrightarrow> a1))
     \<and> (\<forall>e. r = Some e \<longrightarrow> io_class e) \<and> (a \<longrightarrow> a1)"
proof (induction c i frame a w arbitrary: rule: write_loop.induct)
  case (1 c i frame a w)
  show ?case
  proof (cases "frame = []")
    case True
    with "1.prems" show ?thesis
      by (auto simp: write_loop.simps [of c i "[]" a w] intro: exI [of _ "[]"])
  next
    case False
    obtain e0 w2 where ce: "ctx_Err c w = (e0, w2)" by fastforce
    note s0 = ctx_Err_sends [OF ce, of i]
    show ?thesis
    proof (cases e0)
      case (Some e)
      with False ce "1.prems" s0 show ?thesis
        by (auto simp: write_loop.simps [of c i frame a w] dest: ctx_Err_class intro: exI [of _ "[]"])
    next
      case None
      obtain n er w3 where cw: "conn_write i frame w2 = ((n, er), w3)" by (metis surj_pair)
      from conn_write_sends [OF cw] have n: "n \<le> length frame" and s1: "sends i (take n frame) w2 w3" by auto
      have s01: "sends i (take n frame) w w3" using sends_trans [OF s0 s1] by simp
      show ?thesis
      proof (cases er)
        case (Some err)
        obtain e w4 where io: "ioError c err w3 = (e, w4)" by fastforce
        have "r = Some e" "a1" "w1 = w4"
          using "1.prems" False ce None cw Some io by (auto simp: write_loop.simps [of c i frame a w])
        moreover have "sends i (take n frame) w w4"
          using sends_trans [OF s01 ioError_sends [OF io]] by simp
        ultimately show ?thesis
          using ioError_class [OF io] by (auto simp: take_is_prefix)
      next
        case er: None
        show ?thesis
        proof (cases "n = 0")
          case True
          with "1.prems" False ce None cw er s01 show ?thesis
            by (auto simp: write_loop.simps [of c i frame a w] intro: exI [of _ "[]"])
        next
          case n0: False
          from "1.prems" False ce None cw er n0
          have rec: "write_loop c i (drop n frame) True w3 = (r, a1, w1)"
            by (simp add: write_loop.simps [of c i frame a w])
          from "1.IH" [OF False ce [symmetric] None cw [symmetric] refl er n0 rec]
          obtain bs where bs: "sends i bs w3 w1" "prefix bs (drop n frame)" "r = None \<longrightarrow> bs = drop n frame"
            and rest: "\<forall>e. r = Some e \<longrightarrow> io_class e" "a1" by auto
          have "sends i (take n frame @ bs) w w1" by (rule sends_trans [OF s01 bs(1)])
          moreover have "prefix (take n frame @ bs) frame"
            using bs(2) by (metis append_take_drop_id same_prefix_prefix)
          moreover have "r = None \<longrightarrow> take n frame @ bs = frame" using bs(3) by simp
          ultimately show ?thesis using rest by blast
        qed
      qed
    qed
  qed
qed


section \<open>The contract of a reply reader\<close>

text \<open>\<open>exchange\<close> takes the reader of the reply as a closure.  It relies on the reader
  only reading, and on the class of its errors.\<close>

locale reply_reader =
  fixes reply :: "'a reply"
  assumes reply_reads: "reply wi w = (r, wi1, w1) \<Longrightarrow> wire_reads (wi, w) (wi1, w1)"
    and reply_failure: "reply wi w = (Inl e, wi1, w1) \<Longrightarrow> wire_failure e"
begin

lemma reply_sends: "reply wi w = (r, wi1, w1) \<Longrightarrow> sends i [] w w1"
  by (drule reply_reads) (simp add: wire_reads_def reads_on_def reads_sends)

lemma reply_keeps: "reply wi w = (r, wi1, w1) \<Longrightarrow> wi_conn wi1 = wi_conn wi \<and> wi_key wi1 = wi_key wi"
  by (drule reply_reads) (simp add: wire_reads_def)

end

text \<open>The frame a request would have; it depends on the random source only.\<close>

definition frame_of :: "crypto \<Rightarrow> wire \<Rightarrow> string \<Rightarrow> bytes \<Rightarrow> world \<Rightarrow> bytes" where
  "frame_of C wi hdr body w =
     (case fst (request_frame C wi hdr body w) of Inl _ \<Rightarrow> [] | Inr f \<Rightarrow> f)"

lemma frame_of_plain: "wi_key wi = None \<Longrightarrow> frame_of C wi hdr body w = hdr @ LF # body"
  by (simp add: frame_of_def request_frame_def)

lemma request_frame_fst_cong:
  "w_rands w1 = w_rands w \<Longrightarrow> fst (request_frame C wi hdr body w1) = fst (request_frame C wi hdr body w)"
  by (auto simp: request_frame_def encrypt_def rand_nonce_def Let_def
      split: option.splits prod.splits sum.splits list.splits)

lemma request_frame_error: "request_frame C wi hdr body w = (Inl e, w1) \<Longrightarrow> e = ErrConnection"
  by (auto simp: request_frame_def encrypt_def Let_def split: option.splits prod.splits sum.splits)

lemma request_frame_not_Nil: "request_frame C wi hdr body w = (Inr f, w1) \<Longrightarrow> f \<noteq> []"
  by (auto simp: request_frame_def Let_def split: option.splits prod.splits sum.splits)

lemma sends_quiet_left: "sends i [] w w1 \<Longrightarrow> sends i bs w1 w2 \<Longrightarrow> sends i bs w w2"
  using sends_trans [of i "[]" w w1 bs w2] by simp

lemma sends_quiet_right: "sends i bs w w1 \<Longrightarrow> sends i [] w1 w2 \<Longrightarrow> sends i bs w w2"
  using sends_trans [of i bs w w1 "[]" w2] by simp

lemma send_request_props:
  assumes sr: "send_request C c opts hdr body wi w = (r, att, w1)"
  shows "(\<exists>bs. sends (wi_conn wi) bs w w1 \<and> prefix bs (frame_of C wi hdr body w)
      \<and> (r = None \<longrightarrow> bs = frame_of C wi hdr body w \<and> att) \<and> (bs \<noteq> [] \<longrightarrow> att \<and> request_ok opts hdr body))
      \<and> (\<forall>e. r = Some e \<longrightarrow> io_class e \<or> (e = ErrInvalidInput \<and> \<not> request_ok opts hdr body \<and> \<not> att))"
proof -
  let ?i = "wi_conn wi"
  have quiet: ?thesis if "sends ?i [] w w1" "r = Some e" "io_class e" for e
    using that by (auto intro: exI [of _ "[]"])
  obtain e0 w2 where c0: "ctx_Err c w = (e0, w2)" by fastforce
  note s0 = ctx_Err_sends [OF c0, of ?i]
  show ?thesis
  proof (cases "e0 = None \<and> request_ok opts hdr body")
    case False
    with sr c0 s0 show ?thesis
      by (cases e0) (auto simp: send_request_def dest: ctx_Err_class intro: exI [of _ "[]"])
  next
    case ok: True
    obtain f w3 where rf: "request_frame C wi hdr body w2 = (f, w3)" by fastforce
    note s1 = sends_quiet_left [OF s0 request_frame_sends [OF rf]]
    have "w_rands w2 = w_rands w" using c0 by (auto dest!: ctx_Err_tick)
    from request_frame_fst_cong [OF this, of C wi hdr body] rf
    have fo: "frame_of C wi hdr body w = (case f of Inl _ \<Rightarrow> [] | Inr f \<Rightarrow> f)"
      by (simp add: frame_of_def)
    show ?thesis
    proof (cases f)
      case (Inl e)
      with sr c0 ok rf s1 request_frame_error [of C wi hdr body w2 e w3] show ?thesis
        by (intro quiet [of ErrConnection]) (auto simp: send_request_def)
    next
      case (Inr frame)
      obtain a1 w4 where arm: "conn_arm ?i (deadline c (WriteTimeout opts) (w_clock w3)) w3 = (a1, w4)"
        by fastforce
      note s2 = sends_quiet_left [OF s1 conn_arm_sends [OF arm]]
      show ?thesis
      proof (cases a1)
        case (Some err)
        obtain e w5 where io: "ioError c err w4 = (e, w5)" by fastforce
        from sr c0 ok rf Inr arm Some io sends_quiet_left [OF s2 ioError_sends [OF io]] ioError_class [OF io]
        show ?thesis by (intro quiet [of e]) (auto simp: send_request_def)
      next
        case None
        with sr c0 ok rf Inr arm have wl: "write_loop c ?i frame False w4 = (r, att, w1)"
          by (simp add: send_request_def)
        from write_loop_props [OF wl] sends_quiet_left [OF s2] request_frame_not_Nil [of C wi hdr body w2 frame w3]
        show ?thesis using rf ok by (simp add: fo Inr) blast
      qed
    qed
  qed
qed

context reply_reader
begin

lemma await_reply_props:
  assumes aw: "await_reply c opts reply wi w = (r, wi1, w1)"
  shows "sends i [] w w1 \<and> wi_conn wi1 = wi_conn wi \<and> wi_key wi1 = wi_key wi
    \<and> (\<forall>e. r = Inl e \<longrightarrow> io_class e \<or> reply_class e)"
proof -
  obtain a2 w2 where arm: "conn_arm (wi_conn wi) (deadline c (ReadTimeout opts) (w_clock w)) w = (a2, w2)"
    by fastforce
  note s1 = conn_arm_sends [OF arm, of i]
  obtain e3 w3 where c1: "ctx_Err c w2 = (e3, w3)" by fastforce
  note s2 = sends_quiet_left [OF s1 ctx_Err_sends [OF c1]]
  obtain rr wi2 w4 where rep: "reply wi w3 = (rr, wi2, w4)" by (metis prod_cases3)
  note s3 = sends_quiet_left [OF s2 reply_sends [OF rep]]
  have pub: "rr = Inl e \<Longrightarrow> is_KErr e \<Longrightarrow> reply_class e" for e
    using reply_failure [of wi w3 e wi2 w4] rep by (auto intro: wire_failure_KErr)
  show ?thesis
  proof (cases "a2 = None \<and> e3 = None")
    case False
    with aw arm c1 s1 s2 show ?thesis
      by (cases a2) (auto simp: await_reply_def split: prod.splits dest: ctx_Err_class
          ioError_class ioError_sends [of _ _ _ _ _ i] sends_quiet_left)
  next
    case True
    with aw arm c1 rep s3 reply_keeps [OF rep] pub show ?thesis
      by (auto simp: await_reply_def split: sum.splits if_splits prod.splits
          dest: ioError_class ioError_sends [of _ _ _ _ _ i] sends_quiet_left)
  qed
qed

text \<open>The outcome of an exchange, whatever the environment does.\<close>

lemma exchange_props:
  assumes ex: "exchange C c opts hdr body reply wi w = (r, att, wi1, w1)"
  shows "\<exists>bs. sends (wi_conn wi) bs w w1 \<and> prefix bs (frame_of C wi hdr body w)
      \<and> (is_ok r \<longrightarrow> bs = frame_of C wi hdr body w) \<and> (bs \<noteq> [] \<longrightarrow> att \<and> request_ok opts hdr body)"
    and "wi_conn wi1 = wi_conn wi \<and> wi_key wi1 = wi_key wi"
    and "r = Inl e \<Longrightarrow> io_class e \<or> reply_class e \<or> (e = ErrInvalidInput \<and> \<not> request_ok opts hdr body \<and> \<not> att)"
    and "is_ok r \<Longrightarrow> att"
proof -
  obtain r2 at2 w2 where sr: "send_request C c opts hdr body wi w = (r2, at2, w2)" by (metis prod_cases3)
  note sp = send_request_props [OF sr]
  obtain rr wi2 w3 where aw: "await_reply c opts reply wi w2 = (rr, wi2, w3)" by (metis prod_cases3)
  note ap = await_reply_props [OF aw, of "wi_conn wi"]
  have cases: "(\<exists>e. r2 = Some e \<and> r = Inl e \<and> att = at2 \<and> wi1 = wi \<and> w1 = w2) \<or>
      (r2 = None \<and> r = rr \<and> att = at2 \<and> wi1 = wi2 \<and> w1 = w3)"
    using ex sr aw by (cases r2) (auto simp: exchange_def)
  then show "\<exists>bs. sends (wi_conn wi) bs w w1 \<and> prefix bs (frame_of C wi hdr body w)
      \<and> (is_ok r \<longrightarrow> bs = frame_of C wi hdr body w) \<and> (bs \<noteq> [] \<longrightarrow> att \<and> request_ok opts hdr body)"
    using sp ap sends_quiet_right by (elim disjE exE conjE) (fastforce, blast)
  show "wi_conn wi1 = wi_conn wi \<and> wi_key wi1 = wi_key wi"
    and "r = Inl e \<Longrightarrow> io_class e \<or> reply_class e \<or> (e = ErrInvalidInput \<and> \<not> request_ok opts hdr body \<and> \<not> att)"
    and "is_ok r \<Longrightarrow> att"
    using cases sp ap by auto
qed

end

interpretation header_reply: reply_reader "header C mx"
  by unfold_locales (auto dest: header_reads header_failure)

end
