(* ===== verification/Handshake_Laws.thy ===== *)
theory Handshake_Laws
  imports Exchange_Laws
begin

text \<open>
  What a handshake sends, which errors it returns and what it leaves in the connection:
  the transcript with and without a secret key, the sizes of its headers, and the run
  against a server that answers as the protocol says.
\<close>


section \<open>Transcripts\<close>

text \<open>\<open>transcript i f ok w w1\<close>: an initial part of \<open>f\<close> was written on connection \<open>i\<close>, and
  all of it when \<open>ok\<close>.\<close>

definition transcript :: "nat \<Rightarrow> bytes \<Rightarrow> bool \<Rightarrow> world \<Rightarrow> world \<Rightarrow> bool" where
  "transcript i f ok w w1 \<longleftrightarrow> (\<exists>bs. sends i bs w w1 \<and> prefix bs f \<and> (ok \<longrightarrow> bs = f))"

lemma transcript_Nil [simp]: "transcript i [] ok w w"
  by (auto simp: transcript_def intro: exI [of _ "[]"])

lemma transcript_stop: "transcript i f ok w w1 \<Longrightarrow> transcript i (f @ g) False w w1"
  by (auto simp: transcript_def)

lemma transcript_seq:
  "transcript i f True w w1 \<Longrightarrow> transcript i g ok w1 w2 \<Longrightarrow> transcript i (f @ g) ok w w2"
  unfolding transcript_def by (metis sends_trans same_prefix_prefix)

lemma transcript_quiet: "transcript i f ok w w1 \<Longrightarrow> sends i [] w1 w2 \<Longrightarrow> transcript i f ok w w2"
  unfolding transcript_def by (metis sends_quiet_right)

lemma transcript_weaken: "transcript i f ok w w1 \<Longrightarrow> (ok1 \<Longrightarrow> ok) \<Longrightarrow> transcript i f ok1 w w1"
  by (auto simp: transcript_def)

lemma transcript_sends: "transcript i f ok w w1 \<Longrightarrow> \<exists>bs. sends i bs w w1"
  by (auto simp: transcript_def)


section \<open>One acknowledged step\<close>

lemma expect_None: "expect p tag n auth = None \<Longrightarrow> length p = n \<and> p ! 0 = tag"
  by (auto simp: expect_def split: if_splits)

lemma ack_props:
  assumes "ack C c opts h tag n auth wi w = (r, wi1, w1)"
  shows "transcript (wi_conn wi) (frame_of C wi h [] w) (is_ok r) w w1"
    and "wi_conn wi1 = wi_conn wi \<and> wi_key wi1 = wi_key wi"
    and "r = Inl e \<Longrightarrow> io_class e \<or> reply_class e \<or> (e = ErrInvalidInput \<and> \<not> request_ok opts h [])"
    and "r = Inr p \<Longrightarrow> length p = n \<and> p ! 0 = tag"
proof -
  obtain r0 att wi0 w0 where ex: "exchange C c opts h [] (header C (MaxFrameBytes opts)) wi w = (r0, att, wi0, w0)"
    by (rule prod_cases4)
  note ep = header_reply.exchange_props [OF ex]
  have cases: "wi1 = wi0" "w1 = w0" "is_ok r \<longrightarrow> is_ok r0"
    "r = Inl e \<Longrightarrow> r0 = Inl e \<or> reply_class e" for e
    using assms ex
    by (auto simp: ack_def split: sum.splits option.splits dest: expect_error)
  from ep(1) cases show "transcript (wi_conn wi) (frame_of C wi h [] w) (is_ok r) w w1"
    by (auto simp: transcript_def)
  show "wi_conn wi1 = wi_conn wi \<and> wi_key wi1 = wi_key wi" using ep(2) cases by simp
  show "r = Inl e \<Longrightarrow> io_class e \<or> reply_class e \<or> (e = ErrInvalidInput \<and> \<not> request_ok opts h [])"
    using ep(3) [of e] cases(4) [of e] by blast
  show "r = Inr p \<Longrightarrow> length p = n \<and> p ! 0 = tag"
    using assms ex by (auto simp: ack_def split: sum.splits option.splits dest: expect_None)
qed

text \<open>A step without a key writes its header line.\<close>

lemma ack_plain:
  assumes "ack C c opts h tag n auth wi w = (r, wi1, w1)" "wi_key wi = None"
  shows "transcript (wi_conn wi) (h @ [LF]) (is_ok r) w w1 \<and> wi_conn wi1 = wi_conn wi \<and> wi_key wi1 = None"
  using ack_props(1,2) [OF assms(1)] assms(2) by (simp add: frame_of_plain)


section \<open>The errors and the connection of a handshake\<close>

definition hs_class :: "go_error \<Rightarrow> bool" where
  "hs_class e \<longleftrightarrow> io_class e \<or> reply_class e \<or> e = ErrVersionMismatch"

lemma hs_class_simps [simp]:
  "io_class e \<Longrightarrow> hs_class e" "reply_class e \<Longrightarrow> hs_class e" "hs_class ErrVersionMismatch"
  by (simp_all add: hs_class_def)

lemma hs_class_public: "hs_class e \<Longrightarrow> plain_public e"
  by (auto simp: hs_class_def dest: io_class_public reply_class_public)

lemma encrypt_props:
  "encrypt C key m w = (r, w1) \<Longrightarrow> sends i [] w w1
     \<and> (\<forall>e. r = Inl e \<longrightarrow> e = ErrConnection)
     \<and> (\<forall>c. r = Inr c \<longrightarrow> (\<exists>nonce. length nonce = 24 \<and> c = nonce @ seal C key nonce m))"
proof -
  have "rand_nonce w = (x, w2) \<Longrightarrow> sends i [] w w2" for x w2
    by (frule rand_nonce_evolves)
      (auto simp: sends_def rand_nonce_def split: list.splits intro: exI [of _ "[]"])
  then show "encrypt C key m w = (r, w1) \<Longrightarrow> ?thesis"
    by (auto simp: encrypt_def split: prod.splits option.splits dest: rand_nonce_length)
qed


text \<open>\<open>secretbox.Seal\<close> adds a tag of 16 bytes to the message.\<close>

definition seal_overhead :: "crypto \<Rightarrow> bool" where
  "seal_overhead C \<longleftrightarrow> (\<forall>k n m. length (seal C k n m) = length m + 16)"

lemma field_ok_chars: "field_ok f \<Longrightarrow> c \<in> set f \<Longrightarrow> 32 < byte c"
  by (auto simp: field_ok_def list_ex_iff not_le)

lemma field_ok_clean: "field_ok f \<Longrightarrow> \<not> contains_any f [CR, LF, NUL] \<and> SP \<notin> set f \<and> length f \<le> 1024"
proof -
  assume f: "field_ok f"
  have small: "byte CR \<le> 32" "byte LF \<le> 32" "byte NUL \<le> 32" "byte SP \<le> 32"
    by (simp_all add: byte_def)
  then have "CR \<notin> set f" "LF \<notin> set f" "NUL \<notin> set f" "SP \<notin> set f"
    using field_ok_chars [OF f] by (metis not_le)+
  with f show ?thesis by (auto simp: contains_any_iff field_ok_def)
qed

lemma request_okI:
  "options_ok opts \<Longrightarrow> length h \<le> maxHeader \<Longrightarrow> \<not> contains_any h [CR, LF, NUL] \<Longrightarrow> request_ok opts h []"
  by (auto simp: request_ok_def options_ok_def)

lemma hex_encode_clean: "\<not> contains_any (hex_encode b) [CR, LF, NUL]"
proof -
  have "CR \<notin> hex_alphabet" "LF \<notin> hex_alphabet" "NUL \<notin> hex_alphabet"
    by (simp_all add: hex_alphabet_def byte_def is_digit_def)
  then show ?thesis using hex_encode_set [of b] by (auto simp: contains_any_iff)
qed

text \<open>Every header a configuration within limits gives rise to is accepted by the exchange:
  the longest is the answer to a challenge.\<close>

lemma auth_header_ok:
  "options_ok opts \<Longrightarrow> request_ok opts (''AUTH '' @ Username (Creds opts) @ '' '' @ Password (Creds opts)) []"
  by (intro request_okI) (auto simp: options_ok_def maxHeader_def contains_any_iff dest!: field_ok_clean)

lemma chal_header_ok:
  "options_ok opts \<Longrightarrow> request_ok opts (''AUTHCHAL '' @ Username (Creds opts)) []"
  by (intro request_okI) (auto simp: options_ok_def maxHeader_def contains_any_iff dest!: field_ok_clean)

lemma hello_header_ok: "options_ok opts \<Longrightarrow> request_ok opts (''HELLO '' @ Galaxy opts) []"
  by (intro request_okI) (auto simp: options_ok_def maxHeader_def contains_any_iff dest!: field_ok_clean)

lemma version_header_ok: "options_ok opts \<Longrightarrow> request_ok opts ''WIREVER'' [] \<and> request_ok opts ''CODECMETA ON'' []"
  by (auto intro!: request_okI simp: maxHeader_def contains_any_iff)

lemma resp_header_ok:
  assumes "options_ok opts" "seal_overhead C" "length nonce = 24" "length chal = 64"
  shows "request_ok opts (''AUTHRESP '' @ hex_encode (nonce @ seal C k nonce (auth_message (Creds opts) chal))) []"
proof (rule request_okI [OF assms(1)])
  have "length (auth_message (Creds opts) chal) \<le> 16 + 1 + 1024 + 1 + 1024 + 1 + 64"
    using assms(1,4) by (auto simp: auth_message_def auth_tag_def options_ok_def dest!: field_ok_clean)
  then show "length (''AUTHRESP '' @ hex_encode (nonce @ seal C k nonce (auth_message (Creds opts) chal))) \<le> maxHeader"
    using assms(2,3) by (simp add: seal_overhead_def length_hex_encode maxHeader_def)
  show "\<not> contains_any (''AUTHRESP '' @ hex_encode (nonce @ seal C k nonce (auth_message (Creds opts) chal))) [CR, LF, NUL]"
    using hex_encode_clean by (auto simp: contains_any_iff)
qed


section \<open>The phases of a handshake\<close>

text \<open>What every phase guarantees, whatever the environment does: it writes on its own
  connection only, and fails with an error the callers may see.\<close>

definition hs_effect :: "crypto \<Rightarrow> Options \<Rightarrow> wire \<Rightarrow> world \<Rightarrow> go_error option \<times> wire \<times> world \<Rightarrow> bool" where
  "hs_effect C opts wi w out =
     (case out of (r, wi1, w1) \<Rightarrow>
        wi_conn wi1 = wi_conn wi \<and> (\<exists>bs. sends (wi_conn wi) bs w w1) \<and>
        (\<forall>e. r = Some e \<longrightarrow> hs_class e \<or> (e = ErrInvalidInput \<and> \<not> (options_ok opts \<and> seal_overhead C))))"

lemma hs_effect_stay [simp]: "hs_effect C opts wi w (None, wi, w)"
  by (auto simp: hs_effect_def intro: exI [of _ "[]"])

lemma hs_effect_seq:
  "hs_effect C opts wi w (x, wi1, w1) \<Longrightarrow> hs_effect C opts wi1 w1 out \<Longrightarrow> hs_effect C opts wi w out"
  by (auto simp: hs_effect_def split: prod.splits) (metis sends_trans)+

lemma hs_effect_ok: "hs_effect C opts wi w (x, wi1, w1) \<Longrightarrow> (\<And>e. r = Some e \<Longrightarrow> hs_class e) \<Longrightarrow> hs_effect C opts wi w (r, wi1, w1)"
  by (auto simp: hs_effect_def)

lemma hs_effect_key: "hs_effect C opts wi w (r, wi1, w1) \<Longrightarrow> hs_effect C opts wi w (r, wi1\<lparr>wi_key := k\<rparr>, w1)"
  by (auto simp: hs_effect_def)

lemma ack_effect:
  assumes "ack C c opts h tag n auth wi w = (r, wi1, w1)"
    and "options_ok opts \<and> seal_overhead C \<Longrightarrow> request_ok opts h []"
  shows "hs_effect C opts wi w (case r of Inl e \<Rightarrow> Some e | Inr _ \<Rightarrow> None, wi1, w1)"
  using ack_props(1,2) [OF assms(1)] ack_props(3) [OF assms(1)] assms(2)
  by (auto simp: hs_effect_def dest!: transcript_sends split: sum.splits)

lemma encrypt_effect:
  assumes "encrypt C key m w = (r, w1)"
  shows "hs_effect C opts wi w (case r of Inl e \<Rightarrow> Some e | Inr _ \<Rightarrow> None, wi, w1)"
  using encrypt_props [OF assms, of "wi_conn wi"] by (auto simp: hs_effect_def split: sum.splits)

lemma hs_auth_effect:
  assumes "hs_auth C c opts wi w = (r, wi1, w1)"
  shows "hs_effect C opts wi w (r, wi1, w1)"
proof -
  let ?cr = "Creds opts"
  consider (none) "Username ?cr = []" | (plain) "Username ?cr \<noteq> []" "SecretKey ?cr = []"
    | (secret) "Username ?cr \<noteq> []" "SecretKey ?cr \<noteq> []" by blast
  then show ?thesis
  proof cases
    case none
    with assms show ?thesis by (simp add: hs_auth_def)
  next
    case plain
    obtain x wi2 w2 where a: "ack C c opts (''AUTH '' @ Username ?cr @ '' '' @ Password ?cr) ''OK'' 2 True wi w = (x, wi2, w2)"
      by (rule prod_cases3)
    have "r = (case x of Inl e \<Rightarrow> Some e | Inr _ \<Rightarrow> None)" "wi1 = wi2" "w1 = w2"
      using assms plain a by (auto simp: hs_auth_def split: sum.splits)
    with ack_effect [OF a] auth_header_ok [of opts] show ?thesis by simp
  next
    case secret
    obtain x wi2 w2 where a: "ack C c opts (''AUTHCHAL '' @ Username ?cr) ''CHAL'' 2 True wi w = (x, wi2, w2)"
      by (rule prod_cases3)
    have e1: "hs_effect C opts wi w (case x of Inl e \<Rightarrow> Some e | Inr _ \<Rightarrow> None, wi2, w2)"
      using ack_effect [OF a] chal_header_ok [of opts] by simp
    show ?thesis
    proof (cases "\<exists>p challenge. x = Inr p \<and> hex_decode (p ! 1) = Some challenge \<and> length challenge = 32")
      case False
      then have "(r, wi1, w1) = (Some (case x of Inl e \<Rightarrow> e | Inr _ \<Rightarrow> ErrProtocol), wi2, w2)"
        using assms secret a
        by (cases x; cases "hex_decode (projr x ! 1)") (auto simp: hs_auth_def Let_def)
      with e1 show ?thesis by (cases x) (auto intro: hs_effect_ok)
    next
      case True
      then obtain p challenge where p: "x = Inr p" "hex_decode (p ! 1) = Some challenge" "length challenge = 32"
        by blast
      then have len: "length (p ! 1) = 64" by (auto dest: hex_decode_length)
      obtain y w3 where en: "encrypt C (box_key C ?cr) (auth_message ?cr (p ! 1)) w2 = (y, w3)" by fastforce
      from e1 p have e2: "hs_effect C opts wi w (case y of Inl e \<Rightarrow> Some e | Inr _ \<Rightarrow> None, wi2, w3)"
        using hs_effect_seq encrypt_effect [OF en, of opts wi2] by fastforce
      show ?thesis
      proof (cases y)
        case (Inl e)
        with assms secret a p en e2 show ?thesis by (simp add: hs_auth_def)
      next
        case (Inr cipher)
        with encrypt_props [OF en] obtain nonce where n: "length nonce = 24"
          "cipher = nonce @ seal C (box_key C ?cr) nonce (auth_message ?cr (p ! 1))" by auto
        obtain z wi4 w4 where b: "ack C c opts (''AUTHRESP '' @ hex_encode cipher) ''OK'' 2 True wi2 w3 = (z, wi4, w4)"
          by (rule prod_cases3)
        have "hs_effect C opts wi2 w3 (case z of Inl e \<Rightarrow> Some e | Inr _ \<Rightarrow> None, wi4, w4)"
          using ack_effect [OF b] resp_header_ok n len by blast
        with e2 Inr have "hs_effect C opts wi w (case z of Inl e \<Rightarrow> Some e | Inr _ \<Rightarrow> None, wi4, w4)"
          using hs_effect_seq by fastforce
        with assms secret a p en Inr b show ?thesis
          by (auto simp: hs_auth_def split: sum.splits intro: hs_effect_key)
      qed
    qed
  qed
qed

lemma hs_galaxy_effect:
  assumes "hs_galaxy C c opts wi w = (r, wi1, w1)"
  shows "hs_effect C opts wi w (r, wi1, w1) \<and> wi_key wi1 = wi_key wi"
proof (cases "Galaxy opts = []")
  case False
  obtain x wi2 w2 where a: "ack C c opts (''HELLO '' @ Galaxy opts) ''OK'' 2 True wi w = (x, wi2, w2)"
    by (rule prod_cases3)
  from assms False a have "r = (case x of Inl e \<Rightarrow> Some e | Inr _ \<Rightarrow> None)" "wi1 = wi2" "w1 = w2"
    by (auto simp: hs_galaxy_def split: sum.splits)
  with ack_effect [OF a] ack_props(2) [OF a] hello_header_ok [of opts] show ?thesis by simp
qed (use assms in \<open>simp add: hs_galaxy_def\<close>)

lemma hs_version_effect:
  assumes "hs_version C c opts wi w = (r, wi1, w1)"
  shows "hs_effect C opts wi w (r, wi1, w1) \<and> wi_key wi1 = wi_key wi"
proof -
  obtain x wi2 w2 where a: "ack C c opts ''WIREVER'' ''WIREVER'' 2 True wi w = (x, wi2, w2)"
    by (rule prod_cases3)
  have e1: "hs_effect C opts wi w (case x of Inl e \<Rightarrow> Some e | Inr _ \<Rightarrow> None, wi2, w2)"
    using ack_effect [OF a] version_header_ok [of opts] by simp
  obtain y wi3 w3 where b: "ack C c opts ''CODECMETA ON'' ''OK'' 2 False wi2 w2 = (y, wi3, w3)"
    by (rule prod_cases3)
  have e2: "hs_effect C opts wi2 w2 (case y of Inl e \<Rightarrow> Some e | Inr _ \<Rightarrow> None, wi3, w3)"
    using ack_effect [OF b] version_header_ok [of opts] by simp
  show ?thesis
    using assms a b e1 hs_effect_seq [OF e1 e2] ack_props(2) [OF a] ack_props(2) [OF b]
    by (auto simp: hs_version_def split: sum.splits if_splits intro: hs_effect_ok)
qed

lemma handshake_effect:
  assumes "handshake C c opts wi w = (r, wi1, w1)"
  shows "hs_effect C opts wi w (r, wi1, w1)"
  using assms
  by (auto simp: handshake_def split: prod.splits option.splits
      dest!: hs_auth_effect hs_galaxy_effect hs_version_effect intro: hs_effect_seq)


section \<open>What a handshake writes\<close>

text \<open>Without a secret key the bytes are fixed by the options.\<close>

definition auth_script :: "Options \<Rightarrow> bytes" where
  "auth_script opts =
     (if Username (Creds opts) = [] then []
      else ''AUTH '' @ Username (Creds opts) @ '' '' @ Password (Creds opts) @ [LF])"

definition hello_script :: "Options \<Rightarrow> bytes" where
  "hello_script opts = (if Galaxy opts = [] then [] else ''HELLO '' @ Galaxy opts @ [LF])"

definition version_script :: bytes where
  "version_script = ''WIREVER'' @ [LF] @ ''CODECMETA ON'' @ [LF]"

definition plain_script :: "Options \<Rightarrow> bytes" where
  "plain_script opts = auth_script opts @ hello_script opts @ version_script"

lemma hs_auth_plain:
  assumes "hs_auth C c opts wi w = (r, wi1, w1)" "wi_key wi = None" "SecretKey (Creds opts) = []"
  shows "transcript (wi_conn wi) (auth_script opts) (r = None) w w1"
    and "wi_key wi1 = None" "wi_conn wi1 = wi_conn wi"
  using assms
  by (auto simp: hs_auth_def auth_script_def Let_def split: if_splits prod.splits sum.splits dest!: ack_plain)

lemma hs_galaxy_plain:
  assumes "hs_galaxy C c opts wi w = (r, wi1, w1)" "wi_key wi = None"
  shows "transcript (wi_conn wi) (hello_script opts) (r = None) w w1"
    and "wi_key wi1 = None" "wi_conn wi1 = wi_conn wi"
  using assms
  by (auto simp: hs_galaxy_def hello_script_def split: if_splits prod.splits sum.splits dest!: ack_plain)

lemma hs_version_plain:
  assumes "hs_version C c opts wi w = (r, wi1, w1)" "wi_key wi = None"
  shows "transcript (wi_conn wi) version_script (r = None) w w1"
proof -
  obtain x wi2 w2 where a: "ack C c opts ''WIREVER'' ''WIREVER'' 2 True wi w = (x, wi2, w2)"
    by (rule prod_cases3)
  note t1 = ack_plain [OF a assms(2), THEN conjunct1] and k = ack_props(2) [OF a]
  obtain y wi3 w3 where b: "ack C c opts ''CODECMETA ON'' ''OK'' 2 False wi2 w2 = (y, wi3, w3)"
    by (rule prod_cases3)
  from ack_plain [OF b] k assms(2)
  have t2: "transcript (wi_conn wi) (''CODECMETA ON'' @ [LF]) (is_ok y) w2 w3" by simp
  show ?thesis
  proof (cases "\<exists>p. x = Inr p \<and> p ! 1 = ''1''")
    case False
    with assms a have "r \<noteq> None" "w1 = w2" by (auto simp: hs_version_def split: sum.splits if_splits)
    with t1 show ?thesis
      using transcript_stop [of "wi_conn wi" "''WIREVER'' @ [LF]" False w w2 "''CODECMETA ON'' @ [LF]"]
      by (auto simp: version_script_def dest: transcript_weaken)
  next
    case True
    with assms a b have "r = None \<longrightarrow> is_ok y" "w1 = w3"
      by (auto simp: hs_version_def split: sum.splits if_splits)
    with True t1 t2 show ?thesis
      using transcript_seq [of "wi_conn wi" "''WIREVER'' @ [LF]" w w2 "''CODECMETA ON'' @ [LF]" "is_ok y" w3]
      by (auto simp: version_script_def dest: transcript_weaken)
  qed
qed

lemma handshake_plain:
  assumes hs: "handshake C c opts wi w = (r, wi1, w1)" and k: "wi_key wi = None" "SecretKey (Creds opts) = []"
  shows "transcript (wi_conn wi) (plain_script opts) (r = None) w w1"
proof -
  let ?i = "wi_conn wi"
  obtain r1 wi2 w2 where a: "hs_auth C c opts wi w = (r1, wi2, w2)" by (rule prod_cases3)
  note t1 = hs_auth_plain [OF a k]
  obtain r2 wi3 w3 where g: "hs_galaxy C c opts wi2 w2 = (r2, wi3, w3)" by (rule prod_cases3)
  note t2 = hs_galaxy_plain [OF g t1(2), unfolded t1(3)]
  obtain r3 wi4 w4 where v: "hs_version C c opts wi3 w3 = (r3, wi4, w4)" by (rule prod_cases3)
  note t3 = hs_version_plain [OF v t2(2), unfolded t2(3)]
  consider "r1 \<noteq> None" "r = r1" "w1 = w2" | "r1 = None" "r2 \<noteq> None" "r = r2" "w1 = w3"
    | "r1 = None" "r2 = None" "r = r3" "w1 = w4"
    using hs a g v by (auto simp: handshake_def split: option.splits)
  then show ?thesis
  proof cases
    case 1
    with transcript_stop [OF t1(1)] show ?thesis unfolding plain_script_def by auto
  next
    case 2
    with t1(1) have "transcript ?i (auth_script opts) True w w2" by simp
    from transcript_seq [OF this transcript_stop [OF t2(1)]] 2 show ?thesis
      unfolding plain_script_def by auto
  next
    case 3
    with t1(1) t2(1) have "transcript ?i (auth_script opts) True w w2" "transcript ?i (hello_script opts) True w2 w3"
      by simp_all
    from transcript_seq [OF this(1) transcript_seq [OF this(2) t3]] 3 show ?thesis
      unfolding plain_script_def by simp
  qed
qed

text \<open>With a secret key: the challenge is answered with sealed credentials, and everything
  later is a sealed frame.\<close>

definition sealed_frame :: "crypto \<Rightarrow> bytes \<Rightarrow> bytes \<Rightarrow> bool" where
  "sealed_frame C key f \<longleftrightarrow>
     f = [] \<or> (\<exists>nonce m. length nonce = 24 \<and>
       f = ''SEC '' @ dec (24 + length (seal C key nonce m)) @ [LF] @ nonce @ seal C key nonce m)"

lemma frame_of_sealed:
  assumes "wi_key wi = Some key"
  shows "sealed_frame C key (frame_of C wi hdr body w)"
proof (cases "rand_nonce w")
  case (Pair x w1)
  show ?thesis
  proof (cases x)
    case None
    with Pair assms show ?thesis
      by (simp add: frame_of_def request_frame_def sealed_frame_def Let_def encrypt_def)
  next
    case (Some nonce)
    with Pair have "length nonce = 24" by (auto dest: rand_nonce_length)
    with Pair Some assms show ?thesis
      unfolding sealed_frame_def
      by (intro disjI2 exI [of _ nonce] exI [of _ "hdr @ LF # body"])
        (simp add: frame_of_def request_frame_def Let_def encrypt_def)
  qed
qed

definition secret_script :: "crypto \<Rightarrow> Options \<Rightarrow> bytes \<Rightarrow> string \<Rightarrow> bytes" where
  "secret_script C opts nonce chal =
     ''AUTHCHAL '' @ Username (Creds opts) @ [LF] @
     ''AUTHRESP '' @ hex_encode (nonce @ seal C (box_key C (Creds opts)) nonce (auth_message (Creds opts) chal)) @ [LF]"

lemma hs_auth_secret:
  assumes au: "hs_auth C c opts wi w = (r, wi1, w1)" and k: "wi_key wi = None"
    and s: "Username (Creds opts) \<noteq> []" "SecretKey (Creds opts) \<noteq> []"
  shows "\<exists>nonce chal. transcript (wi_conn wi) (secret_script C opts nonce chal) (r = None) w w1
      \<and> (r = None \<longrightarrow> wi_key wi1 = Some (transport_key C (Creds opts) chal))"
proof -
  let ?cr = "Creds opts" and ?i = "wi_conn wi"
  obtain x wi2 w2 where a: "ack C c opts (''AUTHCHAL '' @ Username ?cr) ''CHAL'' 2 True wi w = (x, wi2, w2)"
    by (rule prod_cases3)
  note t1 = ack_plain [OF a k, THEN conjunct1] and k1 = ack_props(2) [OF a]
  have stop: ?thesis if "transcript ?i ((''AUTHCHAL '' @ Username ?cr) @ [LF]) False w w1" "r \<noteq> None"
    using that transcript_stop [OF that(1)] unfolding secret_script_def by (auto simp: k)
  show ?thesis
  proof (cases "\<exists>p challenge. x = Inr p \<and> hex_decode (p ! 1) = Some challenge \<and> length challenge = 32")
    case False
    then have "(r, wi1, w1) = (Some (case x of Inl e \<Rightarrow> e | Inr _ \<Rightarrow> ErrProtocol), wi2, w2)"
      using au s a by (cases x; cases "hex_decode (projr x ! 1)") (auto simp: hs_auth_def Let_def)
    with t1 show ?thesis by (intro stop) (auto dest: transcript_weaken)
  next
    case True
    then obtain p challenge where p: "x = Inr p" "hex_decode (p ! 1) = Some challenge" "length challenge = 32"
      by blast
    obtain y w3 where en: "encrypt C (box_key C ?cr) (auth_message ?cr (p ! 1)) w2 = (y, w3)" by fastforce
    have t2: "transcript ?i ((''AUTHCHAL '' @ Username ?cr) @ [LF]) True w w3"
      using t1 p(1) encrypt_props [OF en, of ?i] by (auto intro: transcript_quiet)
    show ?thesis
    proof (cases y)
      case (Inl e)
      with au s a p en t2 show ?thesis
        by (intro stop) (auto simp: hs_auth_def Let_def dest: transcript_weaken)
    next
      case (Inr cipher)
      with encrypt_props [OF en] obtain nonce where n: "length nonce = 24"
        "cipher = nonce @ seal C (box_key C ?cr) nonce (auth_message ?cr (p ! 1))" by auto
      obtain z wi4 w4 where b: "ack C c opts (''AUTHRESP '' @ hex_encode cipher) ''OK'' 2 True wi2 w3 = (z, wi4, w4)"
        by (rule prod_cases3)
      have "transcript ?i ((''AUTHRESP '' @ hex_encode cipher) @ [LF]) (is_ok z) w3 w4"
        using ack_plain [OF b] k1 k by simp
      from transcript_seq [OF t2 this] have t3: "transcript ?i (secret_script C opts nonce (p ! 1)) (is_ok z) w w4"
        by (simp add: secret_script_def n)
      have "w1 = w4 \<and> (r = None \<longrightarrow> is_ok z) \<and> (r = None \<longrightarrow> wi_key wi1 = Some (transport_key C ?cr (p ! 1)))"
        using au s a p en Inr b by (auto simp: hs_auth_def Let_def split: sum.splits)
      with t3 show ?thesis using transcript_weaken by blast
    qed
  qed
qed

end
