(* ===== verification/Context_Laws.thy ===== *)
theory Context_Laws
  imports Handshake_Laws
begin

text \<open>
  A context error is reported only for a context that is done: \<open>Canceled\<close> and
  \<open>DeadlineExceeded\<close> are never invented by the driver, and an expired internal timeout
  is not passed on as the caller's.
\<close>

definition honest :: "ctx \<Rightarrow> world \<Rightarrow> go_error \<Rightarrow> bool" where
  "honest c w e \<longleftrightarrow> (e = Canceled \<or> e = DeadlineExceeded \<longrightarrow> ctx_err_at c (w_clock w) = Some e)"

lemma honest_KErr [simp]: "is_KErr e \<Longrightarrow> honest c w e"
  by (auto simp: honest_def)

lemma honest_mono: "honest c w e \<Longrightarrow> evolves w w1 \<Longrightarrow> honest c w1 e"
  by (auto simp: honest_def dest: evolves_clock ctx_err_at_mono)

lemma ctx_Err_honest: "ctx_Err c w = (Some e, w1) \<Longrightarrow> honest c w1 e"
  by (auto simp: ctx_Err_def Let_def honest_def)

lemma ioError_honest: "ioError c err w = (e, w1) \<Longrightarrow> honest c w1 e"
  by (auto simp: ioError_def split: prod.splits option.splits if_splits dest: ctx_Err_honest)

lemma write_loop_honest: "write_loop c i frame a w = (Some e, a1, w1) \<Longrightarrow> honest c w1 e"
proof (induction c i frame a w arbitrary: rule: write_loop.induct)
  case (1 c i frame a w)
  then show ?case
    by (auto simp: write_loop.simps [of c i frame a w] split: if_splits prod.splits option.splits dest: ctx_Err_honest ioError_honest)
qed

lemma send_request_honest: "send_request C c opts hdr body wi w = (Some e, att, w1) \<Longrightarrow> honest c w1 e"
  by (auto simp: send_request_def split: if_splits prod.splits option.splits sum.splits
      dest: ctx_Err_honest ioError_honest write_loop_honest request_frame_error)

lemma await_reply_honest: "await_reply c opts reply wi w = (Inl e, wi1, w1) \<Longrightarrow> honest c w1 e"
  by (auto simp: await_reply_def split: if_splits prod.splits option.splits sum.splits
      dest: ctx_Err_honest ioError_honest)

lemma exchange_honest: "exchange C c opts hdr body reply wi w = (Inl e, att, wi1, w1) \<Longrightarrow> honest c w1 e"
  by (auto simp: exchange_def split: prod.splits option.splits
      dest: send_request_honest await_reply_honest)

lemma ack_honest: "ack C c opts h tag n auth wi w = (Inl e, wi1, w1) \<Longrightarrow> honest c w1 e"
  by (auto simp: ack_def split: prod.splits option.splits sum.splits
      dest: exchange_honest dest!: expect_error)

lemma encrypt_honest: "encrypt C key m w = (Inl e, w1) \<Longrightarrow> honest c w1 e"
  by (drule encrypt_props) auto

lemma hs_auth_honest: "hs_auth C c opts wi w = (Some e, wi1, w1) \<Longrightarrow> honest c w1 e"
  by (auto simp: hs_auth_def Let_def split: if_splits prod.splits option.splits sum.splits
      dest: ack_honest encrypt_honest)

lemma handshake_honest: "handshake C c opts wi w = (Some e, wi1, w1) \<Longrightarrow> honest c w1 e"
  by (auto simp: handshake_def hs_galaxy_def hs_version_def
      split: if_splits prod.splits option.splits sum.splits dest: ack_honest hs_auth_honest)

text \<open>From a derived context back to its parent: a cancellation was the parent's.\<close>

lemma honest_parent:
  "honest (with_timeout c d now) w e \<Longrightarrow> e \<noteq> DeadlineExceeded \<Longrightarrow> honest c w e"
  by (auto simp: honest_def dest: with_timeout_err)

end
