(* ===== verification/Client_Laws.thy ===== *)
theory Client_Laws
  imports Client Context_Laws
begin

text \<open>
  The invariant of a client and what every operation keeps of it: its configuration, its
  map of connections, and the ownership of sockets.
\<close>


section \<open>Sockets\<close>

text \<open>The sockets that are open: dialed and not yet closed.\<close>

definition open_conns :: "world \<Rightarrow> nat set" where
  "open_conns w = {i. i < w_next w \<and> i \<notin> set (w_closed w)}"

definition steady :: "world \<Rightarrow> world \<Rightarrow> bool" where
  "steady w w1 \<longleftrightarrow> evolves w w1 \<and> w_next w1 = w_next w \<and> w_closed w1 = w_closed w \<and> w_dialed w1 = w_dialed w"

lemma steady_refl [simp]: "steady w w"
  by (simp add: steady_def)

lemma steady_trans: "steady a b \<Longrightarrow> steady b c \<Longrightarrow> steady a c"
  by (auto simp: steady_def intro: evolves_trans)

lemma steady_evolves: "steady w w1 \<Longrightarrow> evolves w w1"
  by (simp add: steady_def)

lemma sends_steady: "sends i bs w w1 \<Longrightarrow> steady w w1"
  by (simp add: sends_def steady_def)

lemma tls_handshake_steady: "tls_handshake i s b w = (r, w1) \<Longrightarrow> steady w w1"
  by (frule tls_handshake_evolves) (auto simp: steady_def tls_handshake_def Let_def split: list.splits)

lemma start_tls_steady: "start_tls t p i w = (r, w1) \<Longrightarrow> steady w w1"
  by (auto simp: start_tls_def Let_def split: option.splits dest: tls_handshake_steady)

lemma ctx_Err_steady: "ctx_Err c w = (r, w1) \<Longrightarrow> steady w w1"
  using ctx_Err_sends sends_steady by blast

lemma ioError_steady: "ioError c e w = (r, w1) \<Longrightarrow> steady w w1"
  using ioError_sends sends_steady by blast

lemma net_dial_fail: "net_dial a w = (Inl e, w1) \<Longrightarrow> steady w w1"
  by (frule net_dial_evolves) (auto simp: steady_def net_dial_def Let_def split: list.splits option.splits)

lemma net_dial_ok:
  "net_dial a w = (Inr i, w1) \<Longrightarrow> i = w_next w \<and> w_next w1 = Suc i \<and> w_closed w1 = w_closed w
     \<and> w_dialed w1 = w_dialed w @ [(i, a)] \<and> w_sent w1 = w_sent w \<and> evolves w w1"
  by (frule net_dial_evolves) (auto simp: net_dial_def Let_def split: list.splits option.splits)


section \<open>The invariant\<close>

definition conn_ids :: "client \<Rightarrow> nat list" where
  "conn_ids c = map (wi_conn \<circ> snd) (cl_conns c)"

definition client_ok :: "client \<Rightarrow> bool" where
  "client_ok c \<longleftrightarrow> cl_peers c \<noteq> [] \<and> length (cl_peers c) \<le> 64 \<and> options_ok (cl_opts c) \<and>
     distinct (map fst (cl_conns c)) \<and>
     (\<forall>n \<in> set (map fst (cl_conns c)). 0 \<le> n \<and> n < int (length (cl_peers c))) \<and>
     distinct (conn_ids c) \<and> (cl_closed c \<longrightarrow> cl_conns c = [])"

text \<open>Of the open sockets, the client's map holds all but those of \<open>F\<close>: none is lost and
  none is shared.\<close>

definition owns :: "nat set \<Rightarrow> client \<Rightarrow> world \<Rightarrow> bool" where
  "owns F c w \<longleftrightarrow> (\<forall>i \<in> set (w_closed w). i < w_next w) \<and>
     open_conns w = F \<union> set (conn_ids c) \<and> F \<inter> set (conn_ids c) = {}"

definition client_inv :: "nat set \<Rightarrow> client \<Rightarrow> world \<Rightarrow> bool" where
  "client_inv F c w \<longleftrightarrow> client_ok c \<and> owns F c w"

definition same_client :: "client \<Rightarrow> client \<Rightarrow> bool" where
  "same_client c c1 \<longleftrightarrow> cl_peers c1 = cl_peers c \<and> cl_opts c1 = cl_opts c \<and> cl_tls c1 = cl_tls c
     \<and> cl_closed c1 = cl_closed c"

lemma same_client_refl [simp]: "same_client c c"
  by (simp add: same_client_def)

lemma same_client_trans: "same_client a b \<Longrightarrow> same_client b c \<Longrightarrow> same_client a c"
  by (simp add: same_client_def)

lemma same_client_store [simp]: "same_client c (store n wi c)"
  by (simp add: same_client_def store_def)

lemma steady_inv: "client_inv F c w \<Longrightarrow> steady w w1 \<Longrightarrow> client_inv F c w1"
  by (simp add: client_inv_def owns_def open_conns_def steady_def)

lemma update_new: "map_of ps k = None \<Longrightarrow> AList.update k v ps = ps @ [(k, v)]"
  by (induction ps) (auto split: if_splits)

lemma update_old:
  "map_of ps k = Some v0 \<Longrightarrow> f v = f v0 \<Longrightarrow> map (f \<circ> snd) (AList.update k v ps) = map (f \<circ> snd) ps
     \<and> map fst (AList.update k v ps) = map fst ps"
  by (induction ps) (auto split: if_splits)

text \<open>An exchange keeps the connection of its wire.\<close>

lemma store_same_conn:
  "client_inv F c w \<Longrightarrow> map_of (cl_conns c) n = Some wi \<Longrightarrow> wi_conn wi1 = wi_conn wi \<Longrightarrow>
     client_inv F (store n wi1 c) w"
  using update_old [of "cl_conns c" n wi wi_conn wi1]
  by (auto simp: client_inv_def client_ok_def owns_def store_def conn_ids_def)

lemma map_of_store [simp]: "map_of (cl_conns (store n wi c)) n = Some wi"
  by (simp add: store_def update_Some_unfold)

lemma store_new_conn:
  assumes inv: "client_inv F c w" and n: "map_of (cl_conns c) n = None" "0 \<le> n" "n < int (length (cl_peers c))"
    and cl: "\<not> cl_closed c" and i: "wi_conn wi = w_next w" "w_next w1 = Suc (w_next w)" "w_closed w1 = w_closed w"
  shows "client_inv F (store n wi c) w1"
proof -
  have op: "open_conns w1 = insert (w_next w) (open_conns w)"
    using inv i by (auto simp: open_conns_def client_inv_def owns_def less_Suc_eq)
  have notin: "w_next w \<notin> open_conns w" by (simp add: open_conns_def)
  have "n \<notin> set (map fst (cl_conns c))" using n(1) by (simp add: map_of_eq_None_iff)
  moreover have "cl_conns (store n wi c) = cl_conns c @ [(n, wi)]"
    using n(1) by (simp add: store_def update_new)
  ultimately show ?thesis
    using inv n cl i op notin
    by (auto simp: client_inv_def client_ok_def owns_def conn_ids_def store_def less_SucI)
qed


section \<open>Closing connections\<close>

lemma close_all_world: "snd (close_all wis w) = w\<lparr>w_closed := w_closed w @ map wi_conn wis\<rparr>"
  by (induction wis arbitrary: w) (auto simp: wire_close_def conn_close_def Let_def split_beta)

text \<open>What is left of closed connections holds neither a key nor decrypted bytes.\<close>

lemma close_all_erased:
  "wi \<in> set (fst (close_all wis w)) \<Longrightarrow>
     set (wi_plain wi) \<subseteq> {NUL} \<and> (\<forall>k. wi_key wi = Some k \<longrightarrow> set k \<subseteq> {NUL})"
  by (induction wis arbitrary: w) (auto simp: wire_close_def conn_close_def Let_def split_beta)

lemma drop_conns_world:
  "drop_conns c w = (c1, w1) \<Longrightarrow> c1 = c\<lparr>cl_conns := []\<rparr> \<and> w1 = w\<lparr>w_closed := w_closed w @ conn_ids c\<rparr>"
  by (auto simp: drop_conns_def close_all_world conn_ids_def)

lemma drop_conns_props:
  assumes "client_inv F c w" "drop_conns c w = (c1, w1)"
  shows "client_inv F c1 w1" "same_client c c1" "cl_conns c1 = []" "w_sent w1 = w_sent w" "w_clock w1 = w_clock w"
    "w_dialed w1 = w_dialed w" "evolves w w1" "open_conns w1 = F"
proof -
  note d = drop_conns_world [OF assms(2)]
  show "same_client c c1" "cl_conns c1 = []" "w_sent w1 = w_sent w" "w_clock w1 = w_clock w" "w_dialed w1 = w_dialed w" "evolves w w1"
    using d by (simp_all add: same_client_def evolves_def)
  have "open_conns w1 = open_conns w - set (conn_ids c)" using d by (auto simp: open_conns_def)
  then show op: "open_conns w1 = F" using assms(1) by (auto simp: client_inv_def owns_def)
  have "set (conn_ids c) \<subseteq> open_conns w" using assms(1) by (auto simp: client_inv_def owns_def)
  then have "\<forall>i \<in> set (conn_ids c). i < w_next w" by (auto simp: open_conns_def)
  then show "client_inv F c1 w1"
    using d op assms(1) by (auto simp: client_inv_def client_ok_def owns_def conn_ids_def)
qed



section \<open>ensure\<close>

text \<open>The errors of an operation on an open client with valid input: those of a handshake,
  and nothing else as long as \<open>secretbox\<close> adds the overhead it documents.\<close>

definition op_class :: "crypto \<Rightarrow> go_error \<Rightarrow> bool" where
  "op_class C e \<longleftrightarrow> hs_class e \<or> (e = ErrInvalidInput \<and> \<not> seal_overhead C)"

lemma op_class_simps [simp]: "hs_class e \<Longrightarrow> op_class C e" "io_class e \<Longrightarrow> op_class C e" "reply_class e \<Longrightarrow> op_class C e"
  by (simp_all add: op_class_def)

lemma op_class_public: "op_class C e \<Longrightarrow> plain_public e"
  by (auto simp: op_class_def dest: hs_class_public)

lemma prepare_props:
  assumes pr: "prepare C cx (with_timeout cx d t) c node i w = (r, wi, w1)" and opt: "options_ok (cl_opts c)"
  shows "wi_conn wi = i" "steady w w1" "r = Some e \<Longrightarrow> op_class C e \<and> honest cx w1 e"
proof -
  let ?wi = "\<lparr>wi_conn = i, wi_key = None, wi_plain = []\<rparr>" and ?dc = "with_timeout cx d t"
  obtain x w2 where tl: "start_tls (cl_tls c) (cl_peers c ! nat node) i w = (x, w2)" by fastforce
  note s1 = start_tls_steady [OF tl]
  have "wi_conn wi = i \<and> steady w w1 \<and> (\<forall>e. r = Some e \<longrightarrow> op_class C e \<and> honest cx w1 e)"
  proof (cases x)
    case (Some err)
    obtain e1 w3 where io: "ioError cx err w2 = (e1, w3)" by fastforce
    with pr tl Some s1 ioError_class [OF io] ioError_honest [OF io] ioError_steady [OF io] show ?thesis
      by (auto simp: prepare_def intro: steady_trans)
  next
    case None
    obtain y wi2 w3 where hs: "handshake C ?dc (cl_opts c) ?wi w2 = (y, wi2, w3)" by (rule prod_cases3)
    from handshake_effect [OF hs] opt have eff: "wi_conn wi2 = i" "\<exists>bs. sends i bs w2 w3"
      "\<And>e. y = Some e \<Longrightarrow> op_class C e" by (auto simp: hs_effect_def op_class_def)
    then have s2: "steady w w3" using s1 sends_steady steady_trans by blast
    show ?thesis
    proof (cases y)
      case None
      with pr tl \<open>x = None\<close> hs eff s2 show ?thesis by (simp add: prepare_def)
    next
      case (Some err)
      obtain z w4 where ce: "ctx_Err cx w3 = (z, w4)" by fastforce
      have s3: "steady w w4" "evolves w3 w4" using s2 ctx_Err_steady [OF ce] steady_trans steady_evolves by blast+
      show ?thesis
      proof (cases z)
        case (Some e1)
        with pr tl \<open>x = None\<close> hs \<open>y = Some err\<close> ce eff s3 ctx_Err_class ctx_Err_honest show ?thesis
          by (auto simp: prepare_def)
      next
        case None
        have "\<not> errors_Is err DeadlineExceeded \<Longrightarrow> err \<noteq> DeadlineExceeded" by auto
        then have "\<not> errors_Is err DeadlineExceeded \<Longrightarrow> honest cx w4 err"
          using handshake_honest hs \<open>y = Some err\<close> honest_parent honest_mono s3(2) by blast
        with pr tl \<open>x = None\<close> hs \<open>y = Some err\<close> ce None eff s3 show ?thesis
          by (auto simp: prepare_def)
      qed
    qed
  qed
  then show "wi_conn wi = i" "steady w w1" "r = Some e \<Longrightarrow> op_class C e \<and> honest cx w1 e" by auto
qed

text \<open>The contract of \<open>ensure\<close> on an open client and a node in range.\<close>

lemma ensure_props:
  assumes inv: "client_inv F c w" and cl: "\<not> cl_closed c"
    and node: "0 \<le> node" "node < int (length (cl_peers c))"
    and en: "ensure C cx c node w = (r, c1, w1)"
  shows "client_inv F c1 w1 \<and> same_client c c1 \<and> evolves w w1 \<and>
    length (w_dialed w1) \<le> Suc (length (w_dialed w)) \<and>
    (\<forall>wi. r = Inr wi \<longrightarrow> map_of (cl_conns c1) node = Some wi) \<and>
    (\<forall>e. r = Inl e \<longrightarrow> op_class C e \<and> honest cx w1 e \<and> c1 = c)"
proof (cases "map_of (cl_conns c) node")
  case (Some wi)
  with assms show ?thesis by (auto simp: ensure_def)
next
  case None
  let ?dc = "with_timeout cx (ConnectTimeout (cl_opts c)) (w_clock w)"
  have opt: "options_ok (cl_opts c)" using inv by (simp add: client_inv_def client_ok_def)
  obtain d w2 where di: "net_dial (cl_peers c ! nat node) w = (d, w2)" by fastforce
  show ?thesis
  proof (cases d)
    case (Inl err)
    obtain e w3 where io: "ioError cx err w2 = (e, w3)" by fastforce
    have "steady w w3" using net_dial_fail di Inl ioError_steady [OF io] steady_trans by blast
    with en cl node None di Inl io inv ioError_class [OF io] ioError_honest [OF io] show ?thesis
      by (auto simp: ensure_def Let_def steady_inv steady_def)
  next
    case (Inr i)
    note nd = net_dial_ok [OF di [unfolded Inr]]
    obtain x wi w3 where pr: "prepare C cx ?dc c node i w2 = (x, wi, w3)" by (rule prod_cases3)
    note pp = prepare_props [OF pr opt]
    have w3: "w_next w3 = Suc (w_next w)" "w_closed w3 = w_closed w" "w_dialed w3 = w_dialed w2" "evolves w w3"
      using pp(2) nd evolves_trans by (auto simp: steady_def)
    show ?thesis
    proof (cases x)
      case None
      have "client_inv F (store node wi c) w3"
        using store_new_conn [OF inv \<open>map_of (cl_conns c) node = None\<close> node cl] pp(1) nd w3 by simp
      with en cl node \<open>map_of (cl_conns c) node = None\<close> di Inr pr None nd w3 show ?thesis
        by (auto simp: ensure_def Let_def)
    next
      case (Some e)
      have "open_conns (conn_close i w3) = open_conns w"
        using inv nd w3 by (auto simp: open_conns_def conn_close_def less_Suc_eq client_inv_def owns_def)
      then have "client_inv F c (conn_close i w3)"
        using inv nd w3 by (auto simp: client_inv_def owns_def conn_close_def less_SucI)
      moreover have "honest cx (conn_close i w3) e" "evolves w (conn_close i w3)"
        using pp(3) [OF Some] conn_close_evolves w3(4) honest_mono evolves_trans by blast+
      ultimately show ?thesis
        using en cl node \<open>map_of (cl_conns c) node = None\<close> di Inr pr Some nd w3 pp(1) pp(3) [OF Some]
        by (auto simp: ensure_def Let_def wire_close_def conn_close_def)
    qed
  qed
qed


section \<open>An exchange of the client\<close>

context reply_reader
begin

lemma exchange_on_props:
  assumes inv: "client_inv F c w" and wi: "map_of (cl_conns c) node = Some wi"
    and ok: "request_ok (cl_opts c) hdr body"
    and ex: "exchange_on C cx c node hdr body reply wi w = (r, att, c1, w1)"
  shows "client_inv F c1 w1 \<and> same_client c c1 \<and> steady w w1 \<and>
    (\<forall>e. r = Inl e \<longrightarrow> (io_class e \<or> reply_class e) \<and> honest cx w1 e) \<and>
    transcript (wi_conn wi) (frame_of C wi hdr body w) (is_ok r) w w1 \<and>
    (\<not> att \<longrightarrow> sends (wi_conn wi) [] w w1)"
proof -
  obtain wi1 where e: "exchange C cx (cl_opts c) hdr body reply wi w = (r, att, wi1, w1)"
    and c1: "c1 = store node wi1 c"
    using ex by (auto simp: exchange_on_def split: prod.splits)
  note ep = exchange_props [OF e]
  from ep(1) have tr: "transcript (wi_conn wi) (frame_of C wi hdr body w) (is_ok r) w w1"
    and na: "\<not> att \<longrightarrow> sends (wi_conn wi) [] w w1"
    by (auto simp: transcript_def)
  then have st: "steady w w1" using transcript_sends sends_steady by blast
  from store_same_conn [OF inv wi, of wi1] ep(2) have "client_inv F c1 w" by (simp add: c1)
  from steady_inv [OF this st] tr na st c1 ep(3) ok exchange_honest e show ?thesis by fastforce
qed

end



section \<open>The requests fit\<close>

lemma dec_clean: "\<not> contains_any (dec n) [CR, LF, NUL]"
proof -
  have "CR \<notin> digits" "LF \<notin> digits" "NUL \<notin> digits" by (simp_all add: is_digit_def byte_def)
  then show ?thesis using dec_set [of n] by (auto simp: contains_any_iff)
qed

lemma length_dec_frame: "options_ok opts \<Longrightarrow> int n \<le> MaxFrameBytes opts \<Longrightarrow> length (dec n) \<le> 8"
  by (rule length_dec_le) (simp_all add: options_ok_def maxFrame_def)

lemma codec_clean: "codec_Valid cd \<Longrightarrow> \<not> contains_any cd [CR, LF, NUL]"
  by (auto simp: codec_Valid_def Raw_def JSON_def NIF_def BIF_def contains_any_iff)

lemma put_request_ok:
  assumes "options_ok (cl_opts c)" "put_input_ok c ring data cd"
  shows "request_ok (cl_opts c) (put_header ring data cd) (ring @ data)"
proof -
  have "int (length ring) \<le> MaxFrameBytes (cl_opts c)" "int (length data) \<le> MaxFrameBytes (cl_opts c)"
    using assms(2) by (auto simp: put_input_ok_def)
  from length_dec_frame [OF assms(1) this(1)] length_dec_frame [OF assms(1) this(2)] assms(2)
  show ?thesis
    using codec_Valid_chars [of cd] codec_clean [of cd] dec_clean
    by (auto simp: request_ok_def put_header_def put_input_ok_def maxHeader_def)
      (auto simp: contains_any_iff)
qed

lemma read_header_clean:
  assumes "ID_valid i"
  shows "\<not> contains_any (replace_all COLON SP (ID_String i)) [CR, LF, NUL]"
proof -
  have "set (replace_all COLON SP (ID_String i)) \<subseteq> insert SP float_alphabet"
    using ID_String_set [OF assms] by (auto simp: replace_all_def id_alphabet_def)
  then show ?thesis using separators_not_float by (auto simp: contains_any_iff)
qed

definition sel_fits :: "Options \<Rightarrow> string option \<Rightarrow> bool" where
  "sel_fits opts sel \<longleftrightarrow> (case sel of None \<Rightarrow> True | Some s \<Rightarrow> int (length s) \<le> MaxFrameBytes opts)"

lemma read_input_ok_iff: "read_input_ok c i sel \<longleftrightarrow> ID_valid i \<and> sel_fits (cl_opts c) sel"
  by (auto simp: read_input_ok_def sel_fits_def split: option.splits)

lemma contains_any_lit [simp]: "\<not> contains_any ''GETID '' [CR, LF, NUL]" "\<not> contains_any ''QRYID '' [CR, LF, NUL]"
    "\<not> contains_any '' '' [CR, LF, NUL]"
  by (simp_all add: contains_any_iff)

lemma read_request_ok:
  assumes "options_ok opts" "ID_valid i" "sel_fits opts sel"
  shows "request_ok opts (read_header i sel) (read_body sel)"
proof -
  let ?f = "replace_all COLON SP (ID_String i)"
  have f: "length ?f \<le> 4608" "\<not> contains_any ?f [CR, LF, NUL]"
    using length_ID_String read_header_clean assms(2) by simp_all
  show ?thesis
  proof (cases sel)
    case None
    then have "read_header i sel = ''GETID '' @ ?f" "read_body sel = []"
      by (simp_all add: read_header_def read_body_def Let_def)
    moreover have "length (''GETID '' @ ?f) \<le> maxHeader" using f by (simp add: maxHeader_def)
    moreover have "\<not> contains_any (''GETID '' @ ?f) [CR, LF, NUL]"
      unfolding contains_any_append using f by simp
    ultimately show ?thesis using request_okI [OF assms(1)] by simp
  next
    case (Some s)
    then have h: "read_header i sel = ''QRYID '' @ ?f @ '' '' @ dec (length s)" "read_body sel = s"
      by (simp_all add: read_header_def read_body_def Let_def)
    have s: "int (length s) \<le> MaxFrameBytes opts" using assms(3) Some by (simp add: sel_fits_def)
    have "length (dec (length s)) \<le> 8" by (rule length_dec_frame [OF assms(1) s])
    then have "length (read_header i sel) \<le> maxHeader" using f h by (simp add: maxHeader_def)
    moreover have "\<not> contains_any (read_header i sel) [CR, LF, NUL]"
      unfolding h contains_any_append using f dec_clean by simp
    ultimately show ?thesis using s h(2) by (simp add: request_ok_def)
  qed
qed

lemma health_request_ok: "options_ok opts \<Longrightarrow> request_ok opts ''HEALTH'' []"
  by (intro request_okI) (auto simp: maxHeader_def contains_any_iff)


section \<open>The reply readers\<close>

lemma wire_failure_parse [simp]:
  "parseFields p = Inl e \<Longrightarrow> wire_failure e" "bounded s m = Inl e \<Longrightarrow> wire_failure e"
  "expect p tag n auth = Some e \<Longrightarrow> wire_failure e"
  by (auto dest: parseFields_error bounded_error expect_error)

interpretation put_rd: reply_reader "put_reply C mx"
  by unfold_locales
    (auto simp: put_reply_def split: prod.splits sum.splits option.splits
      dest: header_reads header_failure)

interpretation health_rd: reply_reader "health_reply C mx maxn"
  by unfold_locales
    (auto simp: health_reply_def split: prod.splits sum.splits if_splits
      dest: header_reads header_failure)

lemma value_reply_props:
  "value_reply C mx maxn p wi w = (r, wi1, w1) \<Longrightarrow>
     wire_reads (wi, w) (wi1, w1) \<and> (\<forall>e. r = Inl e \<longrightarrow> wire_failure e)"
  by (auto simp: value_reply_def split: prod.splits sum.splits option.splits if_splits
      dest: wire_bytes_props)

lemma absent_reply_failure: "absent_reply p = Inl e \<Longrightarrow> wire_failure e"
  by (auto simp: absent_reply_def split: option.splits)

lemma forward_reply_failure: "forward_reply final maxn p = Inl e \<Longrightarrow> wire_failure e"
  by (auto simp: forward_reply_def split: if_splits sum.splits)

interpretation read_rd: reply_reader "read_reply C mx maxn final"
  by unfold_locales
    (auto simp: read_reply_def split: prod.splits sum.splits if_splits
      dest: header_reads header_failure absent_reply_failure forward_reply_failure value_reply_props
      intro: wire_reads_trans)

text \<open>A redirect names a valid identity and a node of the client.\<close>

lemma forward_reply_props:
  assumes "forward_reply final maxn p = Inr out" "0 \<le> maxn" "maxn < 2 ^ 63"
  shows "\<exists>i n. out = Forward i n \<and> \<not> final \<and> ID_valid i \<and> (\<forall>k. n = Some k \<longrightarrow> 0 \<le> k \<and> k \<le> maxn)"
  using assms(1) bounded_Inr_iff [OF assms(2,3)]
  by (auto simp: forward_reply_def parseFields_valid split: if_splits sum.splits)

lemma absent_reply_Absent: "absent_reply p = Inr out \<Longrightarrow> out = Absent"
  by (auto simp: absent_reply_def split: option.splits)

lemma value_reply_Found: "value_reply C mx maxn p wi w = (Inr out, wi1, w1) \<Longrightarrow> \<exists>v. out = Found v \<and> codec_Valid (Codec v)"
  by (auto simp: value_reply_def split: prod.splits sum.splits option.splits if_splits)

lemma read_reply_forward:
  assumes "read_reply C mx maxn final wi w = (Inr (Forward i n), wi1, w1)" "0 \<le> maxn" "maxn < 2 ^ 63"
  shows "ID_valid i \<and> \<not> final \<and> (\<forall>k. n = Some k \<longrightarrow> 0 \<le> k \<and> k \<le> maxn)"
proof -
  obtain r wi2 w2 where h: "header C mx wi w = (r, wi2, w2)" by (rule prod_cases3)
  have "\<exists>p. forward_reply final maxn p = Inr (Forward i n)"
    using assms(1) h absent_reply_Absent value_reply_Found
    by (cases r) (fastforce simp: read_reply_def split: if_splits)+
  with forward_reply_props [OF _ assms(2,3)] show ?thesis by fastforce
qed

end
