(* ===== verification/Operation_Laws.thy ===== *)
theory Operation_Laws
  imports Client_Laws
begin

text \<open>
  The operations of the client: the contract of an operation that \<open>readOperation\<close> may run
  again, its instances \<open>Health\<close> and \<open>read\<close>, and the facts about \<open>PutCodec\<close>, \<open>Dial\<close>
  and \<open>Close\<close>.
\<close>


section \<open>The contract of an operation\<close>

text \<open>\<open>op_effect C cx F k c w (r, c1, w1)\<close>: the client stays well-formed and the owner of
  its sockets, at most \<open>k\<close> sockets were dialed, and an error is one of the operation
  errors, a context error only if the context is done.\<close>

definition op_effect :: "crypto \<Rightarrow> ctx \<Rightarrow> nat set \<Rightarrow> nat \<Rightarrow> client \<Rightarrow> world \<Rightarrow> (go_error + 'a) \<times> client \<times> world \<Rightarrow> bool" where
  "op_effect C cx F k c w out =
     (case out of (r, c1, w1) \<Rightarrow>
        client_inv F c1 w1 \<and> same_client c c1 \<and> evolves w w1 \<and>
        length (w_dialed w1) \<le> length (w_dialed w) + k \<and>
        (\<forall>e. r = Inl e \<longrightarrow> op_class C e \<and> honest cx w1 e))"

lemma op_effect_error:
  "op_effect C cx F k c w (Inl e, c1, w1) \<Longrightarrow> op_class C e \<and> honest cx w1 e"
  by (simp add: op_effect_def)

lemma op_effect_inv: "op_effect C cx F k c w (r, c1, w1) \<Longrightarrow> client_inv F c1 w1 \<and> same_client c c1 \<and> evolves w w1"
  by (simp add: op_effect_def)

lemma op_effect_seq:
  "op_effect C cx F k c w (x, c1, w1) \<Longrightarrow> op_effect C cx F m c1 w1 out \<Longrightarrow> op_effect C cx F (k + m) c w out"
  by (auto simp: op_effect_def split: prod.splits intro: same_client_trans evolves_trans)

lemma op_effect_less: "op_effect C cx F k c w out \<Longrightarrow> k \<le> m \<Longrightarrow> op_effect C cx F m c w out"
  by (auto simp: op_effect_def split: prod.splits)

locale client_op =
  fixes C :: crypto and cx :: ctx
    and adm :: "client \<Rightarrow> bool" and dials :: "client \<Rightarrow> nat" and oper :: "'a op"
  assumes adm_same: "adm c \<Longrightarrow> same_client c c1 \<Longrightarrow> adm c1"
    and dials_same: "same_client c c1 \<Longrightarrow> dials c1 = dials c"
    and oper_effect: "client_inv F c w \<Longrightarrow> \<not> cl_closed c \<Longrightarrow> adm c \<Longrightarrow>
      op_effect C cx F (dials c) c w (oper c w)"
begin

lemma attempts_effect:
  "client_inv F c w \<Longrightarrow> \<not> cl_closed c \<Longrightarrow> adm c \<Longrightarrow>
     op_effect C cx F (n * dials c) c w (attempts cx oper n c w)"
proof (induction n arbitrary: c w)
  case 0
  then show ?case by (simp add: op_effect_def)
next
  case (Suc n)
  obtain r c1 w1 where o: "oper c w = (r, c1, w1)" by (rule prod_cases3)
  note eff = oper_effect [OF Suc.prems, unfolded o]
  show ?case
  proof (cases r)
    case (Inr v)
    with o eff show ?thesis by (auto simp: op_effect_def)
  next
    case (Inl err)
    obtain c2 w2 where d: "drop_conns c1 w1 = (c2, w2)" by fastforce
    note dp = drop_conns_props [OF conjunct1 [OF op_effect_inv [OF eff]] d]
    obtain x w3 where ce: "ctx_Err cx w2 = (x, w3)" by fastforce
    note st = ctx_Err_steady [OF ce]
    have step: "op_effect C cx F (dials c) c w (y, c2, w3)" if "\<And>e. y = Inl e \<Longrightarrow> op_class C e \<and> honest cx w3 e"
      for y :: "go_error + 'a"
      using that eff dp steady_inv [OF dp(1) st] st
      by (auto simp: op_effect_def steady_def intro: same_client_trans evolves_trans)
    have err: "op_class C err" "honest cx w3 err"
      using eff Inl dp(7) steady_evolves [OF st] honest_mono evolves_trans by (auto simp: op_effect_def)
    show ?thesis
    proof (cases "x = None \<and> n \<noteq> 0 \<and> retryable c2 err")
      case False
      have "attempts cx oper (Suc n) c w = (Inl (case x of Some e \<Rightarrow> e | None \<Rightarrow> err), c2, w3)"
        using False o Inl d ce by (cases x) auto
      moreover have "op_effect C cx F (dials c) c w (Inl (case x of Some e \<Rightarrow> e | None \<Rightarrow> err) :: go_error + 'a, c2, w3)"
        using err ce by (cases x) (auto intro!: step dest: ctx_Err_class ctx_Err_honest)
      ultimately show ?thesis by (auto intro: op_effect_less)
    next
      case True
      have same: "same_client c c2" "client_inv F c2 w3"
        using op_effect_inv [OF eff] dp steady_inv [OF dp(1) st] by (auto intro: same_client_trans)
      have pre: "\<not> cl_closed c2" "adm c2" "dials c2 = dials c"
        using Suc.prems(2) same(1) adm_same [OF Suc.prems(3) same(1)] dials_same [OF same(1)]
        by (simp_all add: same_client_def)
      have "op_effect C cx F (dials c) c w (Inl err :: go_error + 'a, c2, w3)"
        using err by (intro step) auto
      from op_effect_seq [OF this Suc.IH [OF same(2) pre(1,2)]]
      have "op_effect C cx F (Suc n * dials c) c w (attempts cx oper n c2 w3)"
        unfolding pre(3) mult_Suc .
      moreover have "attempts cx oper (Suc n) c w = attempts cx oper n c2 w3"
        using True o Inl d ce by simp
      ultimately show ?thesis by (simp only:)
    qed
  qed
qed

text \<open>After a failed operation nothing of its connections is left for the next one.\<close>

lemma attempts_failed:
  "client_inv F c w \<Longrightarrow> \<not> cl_closed c \<Longrightarrow> adm c \<Longrightarrow> attempts cx oper (Suc n) c w = (Inl e, c1, w1) \<Longrightarrow>
     cl_conns c1 = []"
proof (induction n arbitrary: c w)
  case 0
  then show ?case
    by (auto split: prod.splits sum.splits option.splits dest: drop_conns_world)
next
  case (Suc n)
  obtain r c2 w2 where o: "oper c w = (r, c2, w2)" by (rule prod_cases3)
  note eff = oper_effect [OF Suc.prems(1-3), unfolded o]
  obtain c3 w3 where d: "drop_conns c2 w2 = (c3, w3)" by fastforce
  note dp = drop_conns_props [OF conjunct1 [OF op_effect_inv [OF eff]] d]
  obtain x w4 where ce: "ctx_Err cx w3 = (x, w4)" by fastforce
  have "\<not> cl_closed c3" "adm c3" "client_inv F c3 w4"
    using op_effect_inv [OF eff] dp Suc.prems adm_same steady_inv [OF dp(1) ctx_Err_steady [OF ce]]
    by (auto simp: same_client_def intro: same_client_trans)
  with Suc o d ce dp show ?case
    by (auto split: sum.splits option.splits if_splits simp: Let_def)
qed

text \<open>At most two rounds; a second one only after a connection error or a timeout, when
  retries are not disabled, and on connections made anew.\<close>

lemma attempts_rounds:
  assumes "attempts cx oper 2 c w = (r, c1, w1)"
  shows "oper c w = (r, c1, w1) \<or>
    (\<exists>err c2 w2 c3 w3 x w4. oper c w = (Inl err, c2, w2) \<and> drop_conns c2 w2 = (c3, w3) \<and> ctx_Err cx w3 = (x, w4) \<and>
      (if x = None \<and> retryable c3 err then
         \<exists>r5 c5 w5. oper c3 w4 = (r5, c5, w5) \<and> cl_conns c3 = [] \<and> (is_ok r5 \<longrightarrow> r = r5 \<and> c1 = c5 \<and> w1 = w5)
       else r = Inl (case x of Some e \<Rightarrow> e | None \<Rightarrow> err) \<and> c1 = c3 \<and> w1 = w4))"
  using assms
  by (auto simp: numeral_2_eq_2 Let_def split: prod.splits sum.splits option.splits if_splits
      dest: drop_conns_world)

end


section \<open>Health and read keep the contract\<close>

lemma node0: "client_inv F c w \<Longrightarrow> 0 \<le> (0 :: int) \<and> 0 < int (length (cl_peers c))"
  by (auto simp: client_inv_def client_ok_def)

lemma same_client_opts: "same_client c c1 \<Longrightarrow> cl_opts c1 = cl_opts c \<and> cl_peers c1 = cl_peers c \<and> cl_closed c1 = cl_closed c"
  by (simp add: same_client_def)

lemma inv_options: "client_inv F c w \<Longrightarrow> options_ok (cl_opts c)"
  by (simp add: client_inv_def client_ok_def)

text \<open>Connect, if needed, then one exchange: the shape of all operations.\<close>

definition round_trip ::
  "crypto \<Rightarrow> ctx \<Rightarrow> int \<Rightarrow> string \<Rightarrow> bytes \<Rightarrow> (client \<Rightarrow> 'a reply) \<Rightarrow> client \<Rightarrow> world
     \<Rightarrow> (go_error + 'a) \<times> client \<times> world" where
  "round_trip C cx node hdr body reply c w =
     (case ensure C cx c node w of
        (Inl e, c1, w1) \<Rightarrow> (Inl e, c1, w1)
      | (Inr wi, c1, w1) \<Rightarrow>
        (let (r, _, c2, w2) = exchange_on C cx c1 node hdr body (reply c1) wi w1 in (r, c2, w2)))"

lemma round_trip_effect:
  assumes inv: "client_inv F c w" and cl: "\<not> cl_closed c" and node: "0 \<le> node" "node < int (length (cl_peers c))"
    and ok: "request_ok (cl_opts c) hdr body" and rd: "\<And>c1. reply_reader (reply c1)"
  shows "op_effect C cx F 1 c w (round_trip C cx node hdr body reply c w)"
proof -
  obtain x c1 w1 where en: "ensure C cx c node w = (x, c1, w1)" by (rule prod_cases3)
  note ep = ensure_props [OF inv cl node en]
  show ?thesis
  proof (cases x)
    case (Inl e)
    with en ep show ?thesis by (auto simp: round_trip_def op_effect_def)
  next
    case (Inr wi)
    obtain r att c2 w2 where ex: "exchange_on C cx c1 node hdr body (reply c1) wi w1 = (r, att, c2, w2)"
      by (rule prod_cases4)
    have "client_inv F c1 w1" "map_of (cl_conns c1) node = Some wi" "request_ok (cl_opts c1) hdr body"
      using ep Inr ok same_client_opts by auto
    note xp = reply_reader.exchange_on_props [OF rd this ex]
    with en ep Inr ex show ?thesis
      by (auto simp: round_trip_def op_effect_def steady_def intro: same_client_trans evolves_trans)
  qed
qed

lemma health_op_round: "health_op C cx c w =
   round_trip C cx 0 ''HEALTH'' [] (\<lambda>c1. health_reply C (MaxFrameBytes (cl_opts c1)) (max_node c1)) c w"
  by (simp add: health_op_def round_trip_def)

lemma read_once_round: "read_once C cx sel final i node c w =
   round_trip C cx node (read_header i sel) (read_body sel)
     (\<lambda>c1. read_reply C (MaxFrameBytes (cl_opts c1)) (max_node c1) final) c w"
  by (simp add: read_once_def round_trip_def)

interpretation health: client_op C cx "\<lambda>_. True" "\<lambda>_. 1" "health_op C cx"
proof unfold_locales
  fix F c w assume "client_inv F c w" "\<not> cl_closed c"
  then show "op_effect C cx F 1 c w (health_op C cx c w)"
    unfolding health_op_round using node0 health_request_ok inv_options
    by (intro round_trip_effect) (auto intro: health_rd.reply_reader_axioms)
qed auto

text \<open>A redirect the loop follows names a valid identity and a node of the client.\<close>

lemma round_trip_result:
  assumes "round_trip C cx node hdr body reply c w = (Inr v, c2, w2)"
  shows "\<exists>c1 wi w1 w3 wi4 w4. ensure C cx c node w = (Inr wi, c1, w1) \<and> reply c1 wi w3 = (Inr v, wi4, w4)"
  using assms
  by (auto simp: round_trip_def exchange_on_def exchange_def await_reply_def Let_def
      split: prod.split_asm sum.split_asm option.split_asm if_split_asm)

lemma read_once_forward:
  assumes inv: "client_inv F c w" "\<not> cl_closed c" "0 \<le> node" "node < int (length (cl_peers c))"
    and rd: "read_once C cx sel final i node c w = (Inr (Forward j n), c1, w1)"
  shows "ID_valid j \<and> \<not> final \<and> (\<forall>k. n = Some k \<longrightarrow> 0 \<le> k \<and> k < int (length (cl_peers c)))"
proof -
  from round_trip_result [OF rd [unfolded read_once_round]] obtain c2 wi w2 w3 wi4 w4
    where en: "ensure C cx c node w = (Inr wi, c2, w2)"
      and rp: "read_reply C (MaxFrameBytes (cl_opts c2)) (max_node c2) final wi w3 = (Inr (Forward j n), wi4, w4)"
    by blast
  have m: "max_node c2 = max_node c"
    using ensure_props [OF inv en] by (auto simp: max_node_def same_client_def)
  have "0 \<le> max_node c2" "max_node c2 < 2 ^ 63"
    unfolding m using inv(1) by (auto simp: max_node_def client_inv_def client_ok_def Suc_le_eq)
  from read_reply_forward [OF rp this] show ?thesis unfolding m by (auto simp: max_node_def)
qed


lemma read_hops_effect:
  "client_inv F c w \<Longrightarrow> \<not> cl_closed c \<Longrightarrow> 0 \<le> node \<Longrightarrow> node < int (length (cl_peers c)) \<Longrightarrow>
   ID_valid i \<Longrightarrow> sel_fits (cl_opts c) sel \<Longrightarrow>
     op_effect C cx F (nat (mr + 1 - hops)) c w (read_hops C cx sel mr hops i node c w)"
proof (induction C cx sel mr hops i node c w rule: read_hops.induct)
  case (1 C cx sel mr hops i node c w)
  show ?case
  proof (cases "mr < hops")
    case True
    with 1 show ?thesis by (simp add: read_hops.simps [of C cx sel mr hops i node c w] op_effect_def)
  next
    case False
    obtain r c1 w1 where o: "read_once C cx sel (hops = mr) i node c w = (r, c1, w1)" by (rule prod_cases3)
    have "request_ok (cl_opts c) (read_header i sel) (read_body sel)"
      using "1.prems" inv_options read_request_ok by blast
    then have "op_effect C cx F 1 c w (read_once C cx sel (hops = mr) i node c w)"
      unfolding read_once_round by (rule round_trip_effect [OF "1.prems"(1-4) _ read_rd.reply_reader_axioms])
    then have eff: "op_effect C cx F 1 c w (r, c1, w1)" unfolding o .
    have le: "1 \<le> nat (mr + 1 - hops)" using False by simp
    show ?thesis
    proof (cases "\<exists>j n. r = Inr (Forward j n)")
      case False
      then have "\<exists>r'. read_hops C cx sel mr hops i node c w = (r', c1, w1) \<and> (\<forall>e. r' = Inl e \<longrightarrow> r = Inl e)"
        using o \<open>\<not> mr < hops\<close>
        by (auto simp: read_hops.simps [of C cx sel mr hops i node c w] split: sum.splits read_outcome.splits)
      then show ?thesis using op_effect_less [OF eff le] by (auto simp: op_effect_def)
    next
      case True
      then obtain j n where r: "r = Inr (Forward j n)" by blast
      let ?node = "case n of None \<Rightarrow> node | Some k \<Rightarrow> k"
      note fw = read_once_forward [OF "1.prems"(1-4) o [unfolded r]]
      have same: "same_client c c1" "client_inv F c1 w1" using op_effect_inv [OF eff] by auto
      have pre: "\<not> cl_closed c1" "0 \<le> ?node" "?node < int (length (cl_peers c1))" "sel_fits (cl_opts c1) sel"
        using same(1) "1.prems" fw by (auto simp: same_client_def split: option.splits)
      have "op_effect C cx F (nat (mr + 1 - (hops + 1))) c1 w1 (read_hops C cx sel mr (hops + 1) j ?node c1 w1)"
        using "1.IH" [OF False o [symmetric] r refl refl same(2) pre(1-3) _ pre(4)] fw by simp
      from op_effect_seq [OF eff this]
      have "op_effect C cx F (1 + nat (mr + 1 - (hops + 1))) c w (read_hops C cx sel mr (hops + 1) j ?node c1 w1)" .
      moreover have "1 + nat (mr + 1 - (hops + 1)) = nat (mr + 1 - hops)" using False by simp
      moreover have "read_hops C cx sel mr hops i node c w = read_hops C cx sel mr (hops + 1) j ?node c1 w1"
        using False o r by (simp add: read_hops.simps [of C cx sel mr hops i node c w])
      ultimately show ?thesis by simp
    qed
  qed
qed

interpretation reading: client_op C cx "\<lambda>c. read_input_ok c i sel"
  "\<lambda>c. nat (MaxRedirects (cl_opts c) + 1)" "read_op C i sel cx"
proof unfold_locales
  fix F c w assume "client_inv F c w" "\<not> cl_closed c" "read_input_ok c i sel"
  then show "op_effect C cx F (nat (MaxRedirects (cl_opts c) + 1)) c w (read_op C i sel cx c w)"
    using read_hops_effect [of F c w 0 i sel C cx "MaxRedirects (cl_opts c)" 0] node0 [of F c w]
    by (simp add: read_op_def read_input_ok_iff)
qed (auto simp: same_client_def read_input_ok_iff)


section \<open>Whole operations\<close>

lemma lock_steady: "lock cx h w = (r, w1) \<Longrightarrow> sends i [] w w1"
  by (auto simp: lock_def split: option.splits prod.splits if_splits dest: ctx_Err_sends)

text \<open>The gate is passed only by an open client whose context is not done.\<close>

lemma lock_None:
  "lock cx h w = (None, w1) \<longleftrightarrow> (\<exists>c ctx. h = Some c \<and> cx = Some ctx \<and> \<not> cl_closed c \<and> ctx_Err ctx w = (None, w1))"
  by (auto simp: lock_def split: option.splits prod.splits)

lemma lock_error:
  "lock cx h w = (Some e, w1) \<Longrightarrow>
     (h = None \<and> e = ErrClosed) \<or> (\<exists>c. h = Some c \<and> cx = None \<and> e = ErrInvalidInput) \<or>
     (\<exists>c ctx. h = Some c \<and> cx = Some ctx \<and> cl_closed c \<and> e = ErrClosed \<and> ctx_err_at ctx (w_clock w1) = None) \<or>
     (\<exists>c ctx. h = Some c \<and> cx = Some ctx \<and> io_class e \<and> ctx_err_at ctx (w_clock w1) = Some e)"
  by (auto simp: lock_def ctx_Err_def Let_def split: option.splits prod.splits if_splits
      dest: ctx_err_at_public)

text \<open>\<open>call_effect\<close>: what every operation with a context does to a client.\<close>

definition call_effect ::
  "crypto \<Rightarrow> ctx \<Rightarrow> nat set \<Rightarrow> nat \<Rightarrow> client \<Rightarrow> world \<Rightarrow> (go_error + 'a) \<times> client option \<times> world \<Rightarrow> bool" where
  "call_effect C cx F k c w out =
     (case out of (r, h1, w1) \<Rightarrow> \<exists>c1. h1 = Some c1 \<and> client_inv F c1 w1 \<and> same_client c c1 \<and> evolves w w1 \<and>
        length (w_dialed w1) \<le> length (w_dialed w) + k \<and>
        (cl_closed c \<longrightarrow> steady w w1) \<and>
        (\<forall>e. r = Inl e \<longrightarrow> (public_error e \<and> honest cx w1 e) \<and> (e = ErrClosed \<longrightarrow> cl_closed c)))"

lemma op_class_not_closed: "op_class C e \<Longrightarrow> e \<noteq> ErrClosed"
  by (auto simp: op_class_def hs_class_def io_class_def reply_class_def)

lemma lock_effect:
  assumes "client_inv F c w" "lock (Some cx) (Some c) w = (Some e, w1)"
  shows "call_effect C cx F k c w (Inl e, Some c, w1)"
proof -
  have st: "steady w w1" using lock_steady [OF assms(2)] sends_steady by blast
  have "(public_error e \<and> honest cx w1 e) \<and> (e = ErrClosed \<longrightarrow> cl_closed c)"
    using lock_error [OF assms(2)]
    by (auto simp: honest_def plain_public_public io_class_def)
  with st steady_inv [OF assms(1) st] show ?thesis by (auto simp: call_effect_def steady_def)
qed

context client_op
begin

lemma readOperation_effect:
  assumes inv: "client_inv F c w" and adm: "adm c" and f: "f cx = oper"
  shows "call_effect C cx F (2 * dials c) c w (readOperation (Some cx) (Some c) f w)"
proof -
  obtain x w1 where l: "lock (Some cx) (Some c) w = (x, w1)" by fastforce
  have st: "steady w w1" using lock_steady [OF l] sends_steady by blast
  show ?thesis
  proof (cases x)
    case (Some e)
    with lock_effect [OF inv l [unfolded Some]] l show ?thesis by (simp add: readOperation_def)
  next
    case None
    with l have cl: "\<not> cl_closed c" by (auto simp: lock_None)
    obtain r c2 w2 where a: "attempts cx oper 2 c w1 = (r, c2, w2)" by (rule prod_cases3)
    from attempts_effect [OF steady_inv [OF inv st] cl adm, of 2] a
    have "op_effect C cx F (2 * dials c) c w1 (r, c2, w2)" by simp
    with l None a f st cl show ?thesis
      by (auto simp: readOperation_def call_effect_def op_effect_def steady_def numeral_2_eq_2
          dest: op_class_public plain_public_public op_class_not_closed intro: evolves_trans)
  qed
qed

end

lemma Health_effect:
  "client_inv F c w \<Longrightarrow> call_effect C cx F 2 c w (Health C (Some cx) (Some c) w)"
  using health.readOperation_effect [of F c w "health_op C" cx C] by (simp add: Health_def)

lemma invalid_effect:
  "client_inv F c w \<Longrightarrow> call_effect C cx F k c w (Inl ErrInvalidInput, Some c, w)"
  by (simp add: call_effect_def plain_public_public)

lemma read_record_effect:
  assumes "client_inv F c w"
  shows "call_effect C cx F (2 * nat (MaxRedirects (cl_opts c) + 1)) c w (read_record C (Some cx) (Some c) i sel w)"
proof (cases "read_input_ok c i sel")
  case True
  with reading.readOperation_effect [OF assms True, of "read_op C i sel" cx C] show ?thesis
    by (simp add: read_record_def)
next
  case False
  with invalid_effect [OF assms] show ?thesis by (simp add: read_record_def)
qed

end
