(* ===== verification/Write_Laws.thy ===== *)
theory Write_Laws
  imports Operation_Laws
begin

text \<open>
  \<open>PutCodec\<close>, \<open>Dial\<close> and \<open>Close\<close>: what they write, when a failed write is reported as
  indeterminate, and what happens to the sockets.
\<close>


section \<open>The bytes on a connection\<close>

definition sent_on :: "world \<Rightarrow> nat \<Rightarrow> bytes" where
  "sent_on w i = concat (map snd (filter (\<lambda>p. fst p = i) (w_sent w)))"

lemma sends_on: "sends i bs w w1 \<Longrightarrow> sent_on w1 = (sent_on w)(i := sent_on w i @ bs)"
proof -
  have own: "filter (\<lambda>p. fst p = i) (map (Pair i) xs) = map (Pair i) xs" for xs :: "bytes list"
    by (induction xs) auto
  have other: "j \<noteq> i \<Longrightarrow> filter (\<lambda>p. fst p = j) (map (Pair i) xs) = []" for xs :: "bytes list" and j
    by (induction xs) auto
  have comp: "snd \<circ> Pair i = id" by auto
  assume "sends i bs w w1"
  then obtain xs where "w_sent w1 = w_sent w @ map (Pair i) xs" "concat xs = bs" by (auto simp: sends_def)
  then show ?thesis by (auto simp: sent_on_def fun_eq_iff own other comp)
qed

lemma sent_on_same: "w_sent w1 = w_sent w \<Longrightarrow> sent_on w1 = sent_on w"
  by (simp add: sent_on_def fun_eq_iff)

text \<open>\<open>wrote i f ok w w1\<close>: the only bytes written are an initial part of \<open>f\<close> on connection
  \<open>i\<close>, and all of \<open>f\<close> when \<open>ok\<close>.\<close>

definition wrote :: "nat \<Rightarrow> bytes \<Rightarrow> bool \<Rightarrow> world \<Rightarrow> world \<Rightarrow> bool" where
  "wrote i f ok w w1 \<longleftrightarrow>
     (\<exists>bs. sent_on w1 = (sent_on w)(i := sent_on w i @ bs) \<and> prefix bs f \<and> (ok \<longrightarrow> bs = f))"

lemma transcript_wrote: "transcript i f ok w w1 \<Longrightarrow> wrote i f ok w w1"
  by (auto simp: transcript_def wrote_def dest: sends_on)

lemma wrote_cong: "wrote i f ok w w1 \<Longrightarrow> sent_on w0 = sent_on w \<Longrightarrow> sent_on w2 = sent_on w1 \<Longrightarrow> wrote i f ok w0 w2"
  by (simp add: wrote_def)

lemma wrote_nothing: "sent_on w1 = sent_on w \<Longrightarrow> \<not> ok \<Longrightarrow> wrote i f ok w w1"
  by (auto simp: wrote_def intro: exI [of _ "[]"])

lemma wrote_Nil: "wrote i [] ok w w1 \<Longrightarrow> sent_on w1 = sent_on w"
  by (auto simp: wrote_def)

lemma wrote_stop: "wrote i f ok w w1 \<Longrightarrow> wrote i (f @ g) False w w1"
  by (auto simp: wrote_def)

lemma wrote_seq:
  "wrote i f True w w1 \<Longrightarrow> wrote i g ok w1 w2 \<Longrightarrow> wrote i (f @ g) ok w w2"
  by (auto simp: wrote_def)


section \<open>The phases of a write\<close>

definition put_frame :: "crypto \<Rightarrow> wire \<Rightarrow> string \<Rightarrow> bytes \<Rightarrow> codec \<Rightarrow> world \<Rightarrow> bytes" where
  "put_frame C wi ring data cd w = frame_of C wi (put_header ring data cd) (ring @ data) w"

lemma put_frame_plain:
  "wi_key wi = None \<Longrightarrow> put_frame C wi ring data cd w = put_header ring data cd @ LF # ring @ data"
  by (simp add: put_frame_def frame_of_plain)

text \<open>A write stops at the gate, stops while connecting, or is one exchange; after a failed
  exchange all connections are closed.\<close>

lemma PutCodec_cases:
  assumes inv: "client_inv F c w" and inp: "put_input_ok c ring data cd"
    and put: "PutCodec C (Some cx) (Some c) ring data cd w = (r, h1, w1)"
  obtains
    (gate) e where "lock (Some cx) (Some c) w = (Some e, w1)" "r = Inl e" "h1 = Some c"
  | (connect) e w2 c1 where "\<not> cl_closed c" "lock (Some cx) (Some c) w = (None, w2)"
      "ensure C cx c 0 w2 = (Inl e, c1, w1)" "r = Inl e" "h1 = Some c1"
  | (sent) wi c1 w2 w3 att x c2 w4 where "\<not> cl_closed c" "lock (Some cx) (Some c) w = (None, w2)"
      "ensure C cx c 0 w2 = (Inr wi, c1, w3)" "client_inv F c2 w4" "same_client c c2"
      "length (w_dialed w3) \<le> Suc (length (w_dialed w))" "w_dialed w4 = w_dialed w3" "evolves w w4"
      "transcript (wi_conn wi) (put_frame C wi ring data cd w3) (is_ok x) w3 w4"
      "\<not> att \<longrightarrow> sends (wi_conn wi) [] w3 w4"
      "case x of Inr i \<Rightarrow> r = Inr i \<and> h1 = Some c2 \<and> w1 = w4
       | Inl e \<Rightarrow> (io_class e \<or> reply_class e) \<and> honest cx w4 e \<and> r = Inl (put_error att e) \<and>
           (\<exists>c3. drop_conns c2 w4 = (c3, w1) \<and> h1 = Some c3)"
proof -
  obtain y w2 where l: "lock (Some cx) (Some c) w = (y, w2)" by fastforce
  show thesis
  proof (cases y)
    case (Some e)
    with put inp l show thesis by (intro gate) (auto simp: PutCodec_def put_locked_def)
  next
    case None
    with l have cl: "\<not> cl_closed c" by (auto simp: lock_None)
    have st: "steady w w2" using lock_steady [OF l] sends_steady by blast
    obtain z c1 w3 where en: "ensure C cx c 0 w2 = (z, c1, w3)" by (rule prod_cases3)
    have inv2: "client_inv F c w2" by (rule steady_inv [OF inv st])
    note ep = ensure_props [OF inv2 cl _ _ en]
    note ep1 = ep [OF conjunct1 [OF node0 [OF inv]] conjunct2 [OF node0 [OF inv]]]
    show thesis
    proof (cases z)
      case (Inl e)
      with put inp l None en cl show thesis by (intro connect [of w2 e c1]) (auto simp: PutCodec_def put_locked_def)
    next
      case (Inr wi)
      let ?hdr = "put_header ring data cd"
      obtain x att c2 w4 where ex: "exchange_on C cx c1 0 ?hdr (ring @ data)
          (put_reply C (MaxFrameBytes (cl_opts c1))) wi w3 = (x, att, c2, w4)" by (rule prod_cases4)
      have "map_of (cl_conns c1) 0 = Some wi" "request_ok (cl_opts c1) ?hdr (ring @ data)"
        using ep1 Inr put_request_ok [OF inv_options [OF inv] inp] by (auto simp: same_client_def)
      note xp = put_rd.exchange_on_props [OF conjunct1 [OF ep1] this ex]
      have ev: "evolves w w4" using st ep1 xp steady_evolves evolves_trans by blast
      show thesis
        by (rule sent [OF cl l [unfolded None] en [unfolded Inr], of c2 w4 x att])
          (use put inp l None en Inr ex xp ep1 st ev in \<open>auto simp: PutCodec_def put_locked_def put_frame_def steady_def
             same_client_def split: sum.splits prod.splits\<close>)
    qed
  qed
qed



section \<open>What a write reports\<close>

text \<open>The errors that leave it open whether the server has the record, or that report the
  server's own refusal.\<close>

definition indeterminate :: "go_error \<Rightarrow> bool" where
  "indeterminate e \<longleftrightarrow> (\<exists>c. plain_public c \<and> c \<noteq> ErrServer \<and> c \<noteq> ErrAuthentication \<and>
     e = KErr (err_kind ErrIndeterminateWrite) (err_message ErrIndeterminateWrite) (Some c))"

lemma plain_public_Unwrap: "plain_public e \<Longrightarrow> Unwrap e = None"
  unfolding plain_public_def sentinels_def
  by (elim disjE) (auto simp: ErrConnection_def ErrTimeout_def ErrAuthentication_def ErrProtocol_def
      ErrVersionMismatch_def ErrServer_def ErrIndeterminateWrite_def ErrInvalidInput_def ErrClosed_def)

lemma indeterminate_Is: "indeterminate e \<Longrightarrow> errors_Is e ErrIndeterminateWrite \<and> \<not> plain_public e"
proof -
  assume "indeterminate e"
  then obtain c where e: "e = KErr (err_kind ErrIndeterminateWrite) (err_message ErrIndeterminateWrite) (Some c)"
    by (auto simp: indeterminate_def)
  then have "Unwrap e \<noteq> None" by simp
  moreover have "errors_Is e ErrIndeterminateWrite" unfolding e by (simp add: ErrIndeterminateWrite_def)
  ultimately show ?thesis using plain_public_Unwrap [of e] by argo
qed

lemma io_reply_Is:
  "io_class e \<or> reply_class e \<Longrightarrow> errors_Is e ErrServer = (e = ErrServer) \<and>
     errors_Is e ErrAuthentication = (e = ErrAuthentication)"
  unfolding io_class_def reply_class_def
  by (elim disjE) (simp_all add: errors_Is_sentinels sentinels_def)

lemma put_error_cases:
  assumes "io_class e \<or> reply_class e"
  shows "(att \<and> indeterminate (put_error att e)) \<or> put_error att e = ErrServer \<or> put_error att e = ErrAuthentication \<or>
    (\<not> att \<and> put_error att e = e)"
  using assms io_reply_Is [OF assms]
  by (auto simp: put_error_def indeterminate_def io_class_public reply_class_public)

lemma put_error_public: "io_class e \<or> reply_class e \<Longrightarrow> public_error (put_error att e) \<and> put_error att e \<noteq> ErrClosed"
  using put_error_cases [of e att]
  by (auto simp: indeterminate_def public_error_def io_class_def reply_class_def)
    (auto simp: ErrClosed_def)

lemma put_error_honest: "honest cx w e \<Longrightarrow> honest cx w (put_error att e)"
  by (simp add: put_error_def)

lemma PutCodec_effect:
  assumes inv: "client_inv F c w"
  shows "call_effect C cx F 1 c w (PutCodec C (Some cx) (Some c) ring data cd w)"
proof (cases "put_input_ok c ring data cd")
  case False
  with invalid_effect [OF inv] show ?thesis by (simp add: PutCodec_def put_locked_def)
next
  case True
  obtain r h1 w1 where put: "PutCodec C (Some cx) (Some c) ring data cd w = (r, h1, w1)" by (rule prod_cases3)
  from inv True put show ?thesis
  proof (cases rule: PutCodec_cases)
    case (gate e)
    with put lock_effect [OF inv gate(1)] show ?thesis by simp
  next
    case (connect e w2 c1)
    have st: "steady w w2" using lock_steady [OF connect(2)] sends_steady by blast
    note n0 = node0 [OF inv]
    from ensure_props [OF steady_inv [OF inv st] connect(1) conjunct1 [OF n0] conjunct2 [OF n0] connect(3)]
    show ?thesis
      using put connect st
      by (auto simp: call_effect_def steady_def dest: op_class_public plain_public_public op_class_not_closed
          intro: evolves_trans)
  next
    case (sent wi c1 w2 w3 att x c2 w4)
    show ?thesis
    proof (cases x)
      case (Inr i)
      with put sent show ?thesis by (auto simp: call_effect_def)
    next
      case (Inl e)
      with sent(11) obtain c3 where s: "io_class e \<or> reply_class e" "honest cx w4 e" "r = Inl (put_error att e)"
        "drop_conns c2 w4 = (c3, w1)" "h1 = Some c3" by auto
      note dp = drop_conns_props [OF sent(4) s(4)]
      have "honest cx w1 (put_error att e)" using s(2) dp(7) honest_mono put_error_honest by blast
      with put s dp sent put_error_public [OF s(1)] show ?thesis
        by (auto simp: call_effect_def intro: same_client_trans evolves_trans)
    qed
  qed
qed

lemma sent_on_drop: "drop_conns c w = (c1, w1) \<Longrightarrow> sent_on w1 = sent_on w"
  by (drule drop_conns_world) (simp add: sent_on_def fun_eq_iff)

lemma sends_nothing: "sends i [] w w1 \<Longrightarrow> sent_on w1 = sent_on w"
  by (drule sends_on) (simp add: fun_eq_iff)

lemma lock_sent: "lock cx h w = (r, w1) \<Longrightarrow> sent_on w1 = sent_on w \<and> w_rands w1 = w_rands w"
  by (auto simp: lock_def sent_on_def split: option.splits prod.splits dest!: ctx_Err_tick)

text \<open>A write on a connection that is already there.\<close>

lemma PutCodec_connected:
  assumes inv: "client_inv F c w" and wi: "map_of (cl_conns c) 0 = Some wi"
    and inp: "put_input_ok c ring data cd"
    and put: "PutCodec C (Some cx) (Some c) ring data cd w = (r, h1, w1)"
  shows "wrote (wi_conn wi) (put_frame C wi ring data cd w) (is_ok r) w w1 \<and> w_dialed w1 = w_dialed w \<and>
    (\<forall>e. r = Inl e \<longrightarrow> indeterminate e \<or> e = ErrServer \<or> e = ErrAuthentication \<or> sent_on w1 = sent_on w)"
  using inv inp put
proof (cases rule: PutCodec_cases)
  case (gate e)
  with lock_sent [OF gate(1)] lock_steady [OF gate(1), THEN sends_steady] show ?thesis
    by (auto simp: steady_def intro: wrote_nothing)
next
  case (connect e w2 c1)
  with wi node0 [OF inv] show ?thesis by (auto simp: ensure_def)
next
  case (sent wi' c1 w2 w3 att x c2 w4)
  have e: "wi' = wi" "w3 = w2" using sent(1,3) wi node0 [OF inv] by (auto simp: ensure_def)
  note ls = lock_sent [OF sent(2)]
  have "put_frame C wi ring data cd w3 = put_frame C wi ring data cd w"
    unfolding put_frame_def frame_of_def using request_frame_fst_cong [of w3 w] ls e by simp
  with sent(9) e have wr: "wrote (wi_conn wi) (put_frame C wi ring data cd w) (is_ok x) w3 w4"
    by (auto dest: transcript_wrote)
  have di: "w_dialed w4 = w_dialed w" using sent(2,7) e lock_steady [OF sent(2), THEN sends_steady]
    by (simp add: steady_def)
  show ?thesis
  proof (cases x)
    case (Inr i)
    with sent(11) wr di ls e show ?thesis by (auto intro: wrote_cong)
  next
    case (Inl err)
    with sent(11) obtain c3 where s: "io_class err \<or> reply_class err" "r = Inl (put_error att err)"
      "drop_conns c2 w4 = (c3, w1)" by auto
    have "sent_on w1 = sent_on w4" "w_dialed w1 = w_dialed w4"
      using s(3) sent_on_drop drop_conns_props(6) [OF sent(4)] by auto
    with put_error_cases [OF s(1), of att] sent(10) s wr di ls e Inl show ?thesis
      by (auto intro: wrote_cong dest: sends_nothing)
  qed
qed



section \<open>A new connection without a secret key\<close>

lemma start_tls_sent: "start_tls t p i w = (r, w1) \<Longrightarrow> sent_on w1 = sent_on w"
  by (auto simp: start_tls_def tls_handshake_def sent_on_def Let_def split: option.splits list.splits)

lemma ctx_Err_sent: "ctx_Err c w = (r, w1) \<Longrightarrow> sent_on w1 = sent_on w"
  using sends_nothing ctx_Err_sends by blast

lemma ioError_sent: "ioError c e w = (r, w1) \<Longrightarrow> sent_on w1 = sent_on w"
  using sends_nothing ioError_sends by blast

lemma net_dial_sent: "net_dial a w = (r, w1) \<Longrightarrow> sent_on w1 = sent_on w"
  by (auto simp: net_dial_def Let_def sent_on_def split: list.splits option.splits)

lemma conn_close_sent [simp]: "sent_on (conn_close i w) = sent_on w"
  by (simp add: conn_close_def sent_on_def fun_eq_iff)

lemma prepare_plain:
  assumes pr: "prepare C cx dc c node i w = (r, wi, w1)" and k: "SecretKey (Creds (cl_opts c)) = []"
  shows "wrote i (plain_script (cl_opts c)) (r = None) w w1 \<and> wi_conn wi = i \<and> (r = None \<longrightarrow> wi_key wi = None)"
proof -
  let ?wi = "\<lparr>wi_conn = i, wi_key = None, wi_plain = []\<rparr>"
  obtain x w2 where tl: "start_tls (cl_tls c) (cl_peers c ! nat node) i w = (x, w2)" by fastforce
  note s0 = start_tls_sent [OF tl]
  show ?thesis
  proof (cases x)
    case (Some err)
    obtain e w3 where io: "ioError cx err w2 = (e, w3)" by fastforce
    with pr tl Some s0 ioError_sent [OF io] show ?thesis
      by (auto simp: prepare_def intro: wrote_nothing)
  next
    case None
    obtain y wi2 w3 where hs: "handshake C dc (cl_opts c) ?wi w2 = (y, wi2, w3)" by (rule prod_cases3)
    from handshake_plain [OF hs _ k]
    have wr: "wrote i (plain_script (cl_opts c)) (y = None) w w3"
      using s0 by (auto intro: wrote_cong dest: transcript_wrote)
    have wi2: "wi_conn wi2 = i" using handshake_effect [OF hs] by (simp add: hs_effect_def)
    show ?thesis
    proof (cases y)
      case None
      with pr tl \<open>x = None\<close> hs have out: "r = None" "wi = wi2" "w1 = w3" by (auto simp: prepare_def)
      obtain r1 wi3 w4 where a: "hs_auth C dc (cl_opts c) ?wi w2 = (r1, wi3, w4)" by (rule prod_cases3)
      obtain r2 wi4 w5 where g: "hs_galaxy C dc (cl_opts c) wi3 w4 = (r2, wi4, w5)" by (rule prod_cases3)
      have "wi_key wi4 = None"
        using hs_auth_plain(2) [OF a _ k] hs_galaxy_plain(2) [OF g] by simp
      moreover have "hs_version C dc (cl_opts c) wi4 w5 = (None, wi2, w3)"
        using hs a g None by (auto simp: handshake_def split: option.splits)
      ultimately have "wi_key wi2 = None" using hs_version_effect by metis
      with wr None out wi2 show ?thesis by simp
    next
      case (Some err)
      obtain z w4 where ce: "ctx_Err cx w3 = (z, w4)" by fastforce
      have "r \<noteq> None" "wi = wi2" "w1 = w4"
        using pr tl \<open>x = None\<close> hs Some ce by (auto simp: prepare_def split: option.splits)
      with wr wi2 Some ctx_Err_sent [OF ce] show ?thesis by (auto intro: wrote_cong)
    qed
  qed
qed

lemma ensure_plain:
  assumes en: "ensure C cx c node w = (r, c1, w1)" and k: "SecretKey (Creds (cl_opts c)) = []"
    and new: "map_of (cl_conns c) node = None"
  shows "wrote (w_next w) (plain_script (cl_opts c)) (is_ok r) w w1 \<and>
    (\<forall>wi. r = Inr wi \<longrightarrow> wi_conn wi = w_next w \<and> wi_key wi = None)"
proof -
  let ?dc = "with_timeout cx (ConnectTimeout (cl_opts c)) (w_clock w)"
  consider "\<exists>e. r = Inl e \<and> w1 = w"
    | (go) "\<not> cl_closed c" "0 \<le> node" "node < int (length (cl_peers c))"
    using en by (fastforce simp: ensure_def split: if_splits)
  then show ?thesis
  proof cases
    case 1
    then show ?thesis by (auto intro: wrote_nothing)
  next
    case go
    obtain d w2 where di: "net_dial (cl_peers c ! nat node) w = (d, w2)" by fastforce
    note s0 = net_dial_sent [OF di]
    show ?thesis
    proof (cases d)
      case (Inl err)
      obtain e w3 where "ioError cx err w2 = (e, w3)" by fastforce
      with en go new di Inl s0 ioError_sent [OF this] show ?thesis
        by (auto simp: ensure_def Let_def intro: wrote_nothing)
    next
      case (Inr i)
      obtain x wi w3 where pr: "prepare C cx ?dc c node i w2 = (x, wi, w3)" by (rule prod_cases3)
      have i: "i = w_next w" using net_dial_ok [OF di [unfolded Inr]] by simp
      note pp = prepare_plain [OF pr k]
      with en go new di Inr i s0 pr show ?thesis
        by (cases x) (auto simp: ensure_def Let_def wire_close_def intro: wrote_cong)
    qed
  qed
qed

text \<open>A write on a client without a connection, and without a secret key: the handshake and
  the request, once.\<close>

lemma PutCodec_fresh:
  assumes inv: "client_inv F c w" and k: "SecretKey (Creds (cl_opts c)) = []"
    and new: "map_of (cl_conns c) 0 = None" and inp: "put_input_ok c ring data cd"
    and put: "PutCodec C (Some cx) (Some c) ring data cd w = (r, h1, w1)"
  shows "wrote (w_next w) (plain_script (cl_opts c) @ put_header ring data cd @ LF # ring @ data) (is_ok r) w w1"
  using inv inp put
proof (cases rule: PutCodec_cases)
  case (gate e)
  with lock_sent [OF gate(1)] show ?thesis by (auto intro: wrote_nothing)
next
  case (connect e w2 c1)
  have "w_next w2 = w_next w" using lock_steady [OF connect(2), THEN sends_steady] by (simp add: steady_def)
  with ensure_plain [OF connect(3) k new] lock_sent [OF connect(2)] connect(4) show ?thesis
    by (auto intro!: wrote_stop intro: wrote_cong)
next
  case (sent wi c1 w2 w3 att x c2 w4)
  have n: "w_next w2 = w_next w" using lock_steady [OF sent(2), THEN sends_steady] by (simp add: steady_def)
  from ensure_plain [OF sent(3) k new] n lock_sent [OF sent(2)]
  have e: "wrote (w_next w) (plain_script (cl_opts c)) True w w3" "wi_conn wi = w_next w" "wi_key wi = None"
    by (auto intro: wrote_cong)
  from transcript_wrote [OF sent(9)] e(2,3)
  have "wrote (w_next w) (put_header ring data cd @ LF # ring @ data) (is_ok x) w3 w4"
    by (simp add: put_frame_plain)
  from wrote_seq [OF e(1) this] have wr: "wrote (w_next w) (plain_script (cl_opts c) @ put_header ring data cd @ LF # ring @ data) (is_ok x) w w4" .
  show ?thesis
  proof (cases x)
    case (Inr i)
    with sent(11) wr show ?thesis by simp
  next
    case (Inl err)
    with sent(11) obtain c3 where "r = Inl (put_error att err)" "drop_conns c2 w4 = (c3, w1)" by auto
    with wr Inl sent_on_drop show ?thesis by (auto intro: wrote_cong)
  qed
qed



section \<open>Dial and Close\<close>

definition world_ok :: "world \<Rightarrow> bool" where
  "world_ok w \<longleftrightarrow> (\<forall>i \<in> set (w_closed w). i < w_next w)"

lemma fresh_inv:
  assumes "world_ok w" "normalize load_ca peers opts = Inr (o1, t)"
  shows "client_inv (open_conns w)
    \<lparr>cl_peers = peers, cl_opts = o1, cl_tls = t, cl_conns = [], cl_closed = False\<rparr> w"
proof -
  have "peers \<noteq> []" "length peers \<le> 64" using assms(2) by (auto elim: normalize_InrE)
  with assms normalize_ok [OF assms(2)] show ?thesis
    by (auto simp: client_inv_def client_ok_def owns_def conn_ids_def world_ok_def)
qed

text \<open>A new client owns exactly the sockets opened for it; a failed \<open>Dial\<close> leaves none.\<close>

lemma Dial_effect:
  assumes w: "world_ok w" and d: "Dial C load_ca (Some cx) peers opts w = (r, w1)"
  shows "case r of
      Inl e \<Rightarrow> open_conns w1 = open_conns w \<and> plain_public e \<and> honest cx w1 e \<and> e \<noteq> ErrClosed
    | Inr c \<Rightarrow> client_inv (open_conns w) c w1 \<and> \<not> cl_closed c \<and> cl_peers c = peers \<and>
        (\<exists>wi. cl_conns c = [(0, wi)])"
proof (cases "normalize load_ca peers opts")
  case (Inl e)
  with d normalize_error [OF Inl] show ?thesis by (auto simp: Dial_def)
next
  case (Inr b)
  then obtain o1 t where n: "normalize load_ca peers opts = Inr (o1, t)" by (cases b) auto
  let ?c = "\<lparr>cl_peers = peers, cl_opts = o1, cl_tls = t, cl_conns = [], cl_closed = False\<rparr>"
  note inv = fresh_inv [OF w n]
  obtain x c1 w2 where en: "ensure C cx ?c 0 w = (x, c1, w2)" by (rule prod_cases3)
  note n0 = node0 [OF inv]
  have cl: "\<not> cl_closed ?c" by simp
  note ep = ensure_props [OF inv cl conjunct1 [OF n0] conjunct2 [OF n0] en]
  show ?thesis
  proof (cases x)
    case (Inl e)
    obtain c2 w3 where dr: "drop_conns c1 w2 = (c2, w3)" by fastforce
    have "r = Inl e" "w1 = w3" using d n en Inl dr by (auto simp: Dial_def)
    with ep Inl drop_conns_props [OF conjunct1 [OF ep] dr] show ?thesis
      by (auto dest: op_class_public op_class_not_closed intro: honest_mono)
  next
    case (Inr wi)
    have "r = Inr c1" "w1 = w2" using d n en Inr by (auto simp: Dial_def)
    moreover have "\<exists>wi. cl_conns c1 = [(0, wi)]"
      using en Inr by (auto simp: ensure_def Let_def store_def split: prod.splits sum.splits option.splits if_splits)
    ultimately show ?thesis using ep by (auto simp: same_client_def)
  qed
qed

lemma Dial_world_ok:
  assumes w: "world_ok w" and d: "Dial C load_ca (Some cx) peers opts w = (r, w1)"
  shows "world_ok w1"
proof (cases r)
  case (Inr c)
  with Dial_effect [OF w d] show ?thesis by (auto simp: client_inv_def owns_def world_ok_def)
next
  case (Inl e)
  show ?thesis
  proof (cases "normalize load_ca peers opts")
    case (Inl e)
    with d w show ?thesis by (auto simp: Dial_def)
  next
    case (Inr b)
    then obtain o1 t where n: "normalize load_ca peers opts = Inr (o1, t)" by (cases b) auto
    let ?c = "\<lparr>cl_peers = peers, cl_opts = o1, cl_tls = t, cl_conns = [], cl_closed = False\<rparr>"
    note inv = fresh_inv [OF w n]
    obtain x c1 w2 where en: "ensure C cx ?c 0 w = (x, c1, w2)" by (rule prod_cases3)
    note n0 = node0 [OF inv]
    have cl: "\<not> cl_closed ?c" by simp
    note ep = ensure_props [OF inv cl conjunct1 [OF n0] conjunct2 [OF n0] en]
    obtain c2 w3 where dr: "drop_conns c1 w2 = (c2, w3)" by fastforce
    have "w1 = w3" using d n en \<open>r = Inl e\<close> dr by (auto simp: Dial_def split: sum.splits)
    with drop_conns_props [OF conjunct1 [OF ep] dr] show ?thesis
      by (auto simp: client_inv_def owns_def world_ok_def)
  qed
qed

lemma Close_effect:
  assumes inv: "client_inv F c w" and cl: "Close (Some c) w = (h1, w1)"
  shows "\<exists>c1. h1 = Some c1 \<and> client_inv F c1 w1 \<and> cl_closed c1 \<and> cl_conns c1 = [] \<and>
    Creds (cl_opts c1) = no_credentials \<and> open_conns w1 = F \<and> sent_on w1 = sent_on w \<and> w_dialed w1 = w_dialed w"
proof -
  obtain c2 w2 where d: "drop_conns c w = (c2, w2)" by fastforce
  note dp = drop_conns_props [OF inv d]
  have opt: "options_ok (cl_opts c2)" using inv_options [OF dp(1)] .
  then have "options_ok ((cl_opts c2)\<lparr>Creds := no_credentials\<rparr>)"
    by (auto simp: options_ok_def no_credentials_def field_ok_def)
  with cl d dp show ?thesis
    by (auto simp: Close_def client_inv_def client_ok_def owns_def conn_ids_def intro: sent_on_same)
qed

lemma Close_again: "Close (Some c) w = (h1, w1) \<Longrightarrow> Close h1 w1 = (h1, w1)"
  by (auto simp: Close_def Let_def drop_conns_def close_all_world split: prod.splits)

text \<open>A closed client does nothing to the outside.\<close>

lemma lock_closed:
  "cl_closed c \<Longrightarrow> lock (Some cx) (Some c) w =
     (Some (case ctx_err_at cx (w_clock (tick w)) of None \<Rightarrow> ErrClosed | Some e \<Rightarrow> e), tick w)"
  by (simp add: lock_def ctx_Err_def Let_def split: option.splits)

lemma readOperation_closed:
  "readOperation (Some cx) (Some c) f w = (Inl (case ctx_err_at cx (w_clock (tick w)) of None \<Rightarrow> ErrClosed | Some e \<Rightarrow> e), Some c, tick w)"
  if "cl_closed c"
  using that by (simp add: readOperation_def lock_closed)

lemma closed_inert:
  assumes "cl_closed c"
  shows "put_input_ok c ring data cd \<Longrightarrow> PutCodec C (Some cx) (Some c) ring data cd w =
      (Inl (case ctx_err_at cx (w_clock (tick w)) of None \<Rightarrow> ErrClosed | Some e \<Rightarrow> e), Some c, tick w)"
    and "read_input_ok c i sel \<Longrightarrow> read_record C (Some cx) (Some c) i sel w =
      (Inl (case ctx_err_at cx (w_clock (tick w)) of None \<Rightarrow> ErrClosed | Some e \<Rightarrow> e), Some c, tick w)"
    and "Health C (Some cx) (Some c) w =
      (Inl (case ctx_err_at cx (w_clock (tick w)) of None \<Rightarrow> ErrClosed | Some e \<Rightarrow> e), Some c, tick w)"
  using assms by (simp_all add: PutCodec_def lock_closed read_record_def Health_def readOperation_closed)

text \<open>On a connection with a key, a write is one sealed frame holding the request, or nothing.\<close>

lemma put_frame_sealed:
  assumes "wi_key wi = Some key"
  shows "put_frame C wi ring data cd w = [] \<or>
    (\<exists>nonce. length nonce = 24 \<and> put_frame C wi ring data cd w =
       ''SEC '' @ dec (24 + length (seal C key nonce (put_header ring data cd @ LF # ring @ data))) @ [LF] @
         nonce @ seal C key nonce (put_header ring data cd @ LF # ring @ data))"
proof (cases "rand_nonce w")
  case (Pair x w1)
  show ?thesis
  proof (cases x)
    case None
    with Pair assms show ?thesis
      by (simp add: put_frame_def frame_of_def request_frame_def Let_def encrypt_def)
  next
    case (Some nonce)
    with Pair have "length nonce = 24" by (auto dest: rand_nonce_length)
    with Pair Some assms show ?thesis
      by (intro disjI2 exI [of _ nonce]) (simp add: put_frame_def frame_of_def request_frame_def Let_def encrypt_def)
  qed
qed



section \<open>Recognising errors\<close>

text \<open>Between the sentinels \<open>errors.Is\<close> is equality, except that a closed client counts as a
  connection error; an unknown write outcome is recognised as such and as its cause.\<close>

lemma errors_Is_table:
  assumes "e \<in> set sentinels" "t \<in> set sentinels"
  shows "(errors_Is e t \<longleftrightarrow> e = t \<or> (e = ErrClosed \<and> t = ErrConnection)) \<and>
    errors_Is (put_error True e) (if e = ErrServer \<or> e = ErrAuthentication then e else ErrIndeterminateWrite) \<and>
    errors_Is (put_error True e) e"
proof -
  let ?k = "KErr (err_kind ErrIndeterminateWrite) (err_message ErrIndeterminateWrite) (Some e)"
  have "errors_Is e ErrServer = (e = ErrServer)" "errors_Is e ErrAuthentication = (e = ErrAuthentication)"
    using errors_Is_sentinels [OF assms(1)] by (simp_all add: sentinels_def)
  then have p: "put_error True e = (if e = ErrServer \<or> e = ErrAuthentication then e else ?k)"
    by (simp add: put_error_def)
  have "errors_Is ?k ErrIndeterminateWrite" by (simp add: ErrIndeterminateWrite_def)
  with errors_Is_cause [of e e] show ?thesis
    unfolding p errors_Is_sentinels [OF assms] by simp
qed

end
