(* ===== verification/Delivery.thy ===== *)
theory Delivery
  imports Write_Laws
begin

text \<open>
  Transports that deliver: what it means for bytes to be on their way on a connection, in
  the clear or in sealed frames, and that headers, bodies and whole exchanges then
  succeed and consume exactly what they read.
\<close>


section \<open>Printable headers\<close>

definition printable :: "string \<Rightarrow> bool" where
  "printable s \<longleftrightarrow> list_all (\<lambda>b. 32 \<le> byte b \<and> byte b \<le> 126) s"

lemma printable_append [simp]: "printable (s @ t) \<longleftrightarrow> printable s \<and> printable t"
  by (simp add: printable_def)

lemma header_ok_printable: "header_ok h \<longleftrightarrow> h \<noteq> [] \<and> printable h"
  by (simp add: header_ok_def printable_def)

lemma printable_dec: "printable (dec n)"
proof -
  have "c \<in> digits \<Longrightarrow> 32 \<le> byte c \<and> byte c \<le> 126" for c by (auto simp: is_digit_def byte_def)
  then show ?thesis using dec_set [of n] by (auto simp: printable_def list_all_iff)
qed

lemma dec_no_space: "SP \<notin> set (dec n)"
  using dec_set [of n] by (auto simp: is_digit_def byte_def)

lemma bounded_dec: "int k \<le> m \<Longrightarrow> m < 2 ^ 63 \<Longrightarrow> bounded (dec k) m = Inr (int k)"
  by (simp add: bounded_Inr_iff)

lemma read_full_arrived:
  "arrived (w_inbox w i) = bs @ rest \<Longrightarrow>
     \<exists>w1. read_full i (length bs) w = (Inr bs, w1) \<and> arrived (w_inbox w1 i) = rest"
proof (induction bs arbitrary: w)
  case (Cons b bs)
  then obtain w1 where "read_byte i w = (Inr b, w1)" "arrived (w_inbox w1 i) = bs @ rest"
    using conn_source.rd_offers [of w i b "bs @ rest"] by auto
  with Cons.IH [of w1] show ?case by auto
qed simp


section \<open>Sealed frames\<close>

text \<open>\<open>secretbox.Open\<close> undoes \<open>secretbox.Seal\<close>, which adds 16 bytes; limits as options
  accept them.\<close>

definition opens :: "crypto \<Rightarrow> bytes \<Rightarrow> bool" where
  "opens C key \<longleftrightarrow> (\<forall>n m. length n = 24 \<longrightarrow> unseal C key n (seal C key n m) = Some m)"

definition sealing :: "crypto \<Rightarrow> bytes \<Rightarrow> int \<Rightarrow> bool" where
  "sealing C key mx \<longleftrightarrow> opens C key \<and> seal_overhead C \<and> 0 \<le> mx \<and> mx \<le> maxFrame"

definition sec_frame :: "crypto \<Rightarrow> bytes \<Rightarrow> bytes \<times> bytes \<Rightarrow> bytes" where
  "sec_frame C key = (\<lambda>(nonce, m).
     ''SEC '' @ dec (24 + length (seal C key nonce m)) @ LF # nonce @ seal C key nonce m)"

lemma fill_sealed:
  assumes key: "wi_key wi = Some key" and C: "sealing C key mx"
    and nonce: "length nonce = 24" and room: "int (length (wi_plain wi)) + int (length m) \<le> mx + int maxHeader + 1"
    and ib: "arrived (w_inbox w (wi_conn wi)) = sec_frame C key (nonce, m) @ rest"
  shows "\<exists>w1. fill C mx wi w = (None, wi\<lparr>wi_plain := wi_plain wi @ m\<rparr>, w1) \<and>
    arrived (w_inbox w1 (wi_conn wi)) = rest"
proof -
  let ?c = "nonce @ seal C key nonce m" and ?i = "wi_conn wi"
  let ?h = "''SEC '' @ dec (length ?c)"
  have len: "length ?c = length m + 40" using C nonce by (simp add: sealing_def seal_overhead_def)
  have mx: "0 \<le> mx" "mx \<le> maxFrame" using C by (auto simp: sealing_def)
  have n: "int (length ?c) \<le> mx + int maxHeader + 41" using len room by simp
  have ln: "length ?c < 10 ^ 10" using n mx by (simp add: maxFrame_def maxHeader_def)
  have dl: "length (dec (length ?c)) \<le> 10" by (rule length_dec_le [OF ln]) simp
  have h: "header_ok ?h" "length ?h \<le> maxHeader"
    using printable_dec dl by (simp_all add: header_ok_printable maxHeader_def) (simp add: printable_def byte_def)
  have sp: "split_on SP ?h = [''SEC'', dec (length ?c)]"
    using split_on_append [of SP "''SEC''"] split_on_single [OF dec_no_space [of "length ?c"]] by simp
  have ib1: "arrived (w_inbox w ?i) = ?h @ LF # ?c @ rest" using ib nonce by (simp add: sec_frame_def)
  obtain w1 where l: "line (read_byte ?i) w = (line_fields ?h, w1)" "arrived (w_inbox w1 ?i) = ?c @ rest"
    using conn_source.line_offers [OF ib1 header_ok_no_LF [OF h(1)] h(2)] by blast
  from read_full_arrived [OF l(2)] obtain w2 where r: "read_full ?i (length ?c) w1 = (Inr ?c, w2)"
    "arrived (w_inbox w2 ?i) = rest" by blast
  have b: "bounded (dec (length ?c)) (mx + int maxHeader + 41) = Inr (int (length ?c))"
    by (rule bounded_dec [OF n]) (use mx in \<open>simp add: maxFrame_def maxHeader_def\<close>)
  have "unseal C key (fit 24 (take 24 ?c)) (drop 24 ?c) = Some m"
    using C nonce by (simp add: sealing_def opens_def)
  moreover have "line (read_byte ?i) w = (Inr [''SEC'', dec (length ?c)], w1)"
    unfolding l(1) line_fields_header [OF h(1)] sp ..
  moreover have "\<not> int (length ?c) < 40" unfolding len by simp
  ultimately have "fill C mx wi w = (None, wi\<lparr>wi_plain := wi_plain wi @ m\<rparr>, w2)"
    using r(1) b key room unfolding fill_def rawBytes_def by (simp add: expect_def del: length_append)
  with r(2) show ?thesis by blast
qed

text \<open>A stream of frames: what is decrypted already and what the frames hold, one after the
  other, is on offer, as long as it fits the limit of the buffer.\<close>

definition framed :: "crypto \<Rightarrow> bytes \<Rightarrow> wire \<Rightarrow> world \<Rightarrow> (bytes \<times> bytes) list \<Rightarrow> bytes \<Rightarrow> bool" where
  "framed C key wi w fs bs \<longleftrightarrow>
     wi_key wi = Some key \<and> (\<exists>rest. arrived (w_inbox w (wi_conn wi)) = concat (map (sec_frame C key) fs) @ rest) \<and>
     list_all (\<lambda>(nonce, m). length nonce = 24) fs \<and> wi_plain wi @ concat (map snd fs) = bs"

definition sealed_offer :: "crypto \<Rightarrow> int \<Rightarrow> bytes \<Rightarrow> wire \<Rightarrow> world \<Rightarrow> bytes \<Rightarrow> bool" where
  "sealed_offer C mx key wi w bs \<longleftrightarrow> sealing C key mx \<and> int (length bs) \<le> mx + int maxHeader + 1 \<and> (\<exists>fs. framed C key wi w fs bs)"

lemma fill_loop_framed:
  "framed C key wi w fs bs \<Longrightarrow> sealing C key mx \<Longrightarrow> int (length bs) \<le> mx + int maxHeader + 1 \<Longrightarrow> n \<le> length bs \<Longrightarrow>
     \<exists>wi1 w1 fs1. fill_loop C n mx wi w = (None, wi1, w1) \<and> wi_conn wi1 = wi_conn wi \<and>
       framed C key wi1 w1 fs1 bs \<and> n \<le> length (wi_plain wi1)"
proof (induction fs arbitrary: wi w)
  case Nil
  then have "n \<le> length (wi_plain wi)" by (simp add: framed_def)
  with Nil show ?case by (simp add: fill_loop.simps [of C n mx wi w]) blast
next
  case (Cons f fs)
  show ?case
  proof (cases "length (wi_plain wi) < n")
    case False
    with Cons.prems show ?thesis by (simp add: fill_loop.simps [of C n mx wi w]) fastforce
  next
    case True
    obtain nonce m where f: "f = (nonce, m)" by fastforce
    from Cons.prems(1) f obtain rest where fr: "wi_key wi = Some key" "length nonce = 24"
      "arrived (w_inbox w (wi_conn wi)) = sec_frame C key (nonce, m) @ concat (map (sec_frame C key) fs) @ rest"
      "list_all (\<lambda>(nonce, m). length nonce = 24) fs" "wi_plain wi @ m @ concat (map snd fs) = bs"
      by (auto simp: framed_def)
    have "int (length (wi_plain wi)) + int (length m) \<le> mx + int maxHeader + 1"
      using Cons.prems(3) unfolding fr(5) [symmetric] by simp
    from fill_sealed [OF fr(1) Cons.prems(2) fr(2) this fr(3)] obtain w1
      where fl: "fill C mx wi w = (None, wi\<lparr>wi_plain := wi_plain wi @ m\<rparr>, w1)"
        "arrived (w_inbox w1 (wi_conn wi)) = concat (map (sec_frame C key) fs) @ rest" by blast
    have "framed C key (wi\<lparr>wi_plain := wi_plain wi @ m\<rparr>) w1 fs bs"
      using fr fl(2) by (auto simp: framed_def)
    from Cons.IH [OF this Cons.prems(2-4)] True fl(1) show ?thesis
      by (simp add: fill_loop.simps [of C n mx wi w])
  qed
qed

lemma wire_bytes_sealed:
  assumes "sealed_offer C mx key wi w (data @ rest)"
  shows "\<exists>wi1 w1. wire_bytes C (length data) mx wi w = (Inr data, wi1, w1) \<and> wi_conn wi1 = wi_conn wi \<and>
    sealed_offer C mx key wi1 w1 rest"
proof -
  from assms obtain fs where a: "framed C key wi w fs (data @ rest)" "sealing C key mx"
    "int (length (data @ rest)) \<le> mx + int maxHeader + 1" by (auto simp: sealed_offer_def)
  from fill_loop_framed [OF a, of "length data"] obtain wi1 w1 fs1 where
    f: "fill_loop C (length data) mx wi w = (None, wi1, w1)" "wi_conn wi1 = wi_conn wi" "length data \<le> length (wi_plain wi1)"
    "framed C key wi1 w1 fs1 (data @ rest)" by auto
  have eq: "wi_plain wi1 @ concat (map snd fs1) = data @ rest" using f(4) by (simp add: framed_def)
  have p: "take (length data) (wi_plain wi1) = data" "drop (length data) (wi_plain wi1) @ concat (map snd fs1) = rest"
    using f(3) arg_cong [OF eq, of "take (length data)"] arg_cong [OF eq, of "drop (length data)"] by simp_all
  have "framed C key (wi1\<lparr>wi_plain := drop (length data) (wi_plain wi1)\<rparr>) w1 fs1 rest"
    using f(4) p(2) by (auto simp: framed_def)
  moreover have "wi_key wi = Some key" using a(1) by (simp add: framed_def)
  ultimately show ?thesis using f(1,2) p(1) a(2,3) by (auto simp: wire_bytes_def sealed_offer_def)
qed

text \<open>Decrypted bytes are a source for \<open>line\<close>, across the borders of frames.\<close>

interpretation sealed_src: byte_source "secure_source C mx" wire_reads "\<lambda>(wi, w). sealed_offer C mx key wi w" wire_failure
proof unfold_locales
  fix s :: "wire \<times> world" and b bs
  obtain wi w where s: "s = (wi, w)" by fastforce
  assume "(case s of (wi, w) \<Rightarrow> sealed_offer C mx key wi w) (b # bs)"
  with s wire_bytes_sealed [of C mx key wi w "[b]" bs]
  show "\<exists>t. secure_source C mx s = (Inr b, t) \<and> (case t of (wi, w) \<Rightarrow> sealed_offer C mx key wi w) bs"
    by (auto simp: secure_source_def)
qed (auto dest: secure_src.rd_step secure_src.rd_failure intro: wire_reads_trans)



section \<open>What is on its way\<close>

text \<open>The bytes \<open>bs\<close> are all that arrives in the clear, or are on offer in sealed frames.\<close>

definition delivers :: "crypto \<Rightarrow> int \<Rightarrow> wire \<Rightarrow> world \<Rightarrow> bytes \<Rightarrow> bool" where
  "delivers C mx wi w bs \<longleftrightarrow>
     (case wi_key wi of None \<Rightarrow> arrived (w_inbox w (wi_conn wi)) = bs
      | Some key \<Rightarrow> sealed_offer C mx key wi w bs)"

lemma delivers_cong:
  "w_inbox w1 (wi_conn wi) = w_inbox w (wi_conn wi) \<Longrightarrow> delivers C mx wi w1 bs = delivers C mx wi w bs"
  by (simp add: delivers_def sealed_offer_def framed_def split: option.split)

lemma header_delivers:
  assumes "delivers C mx wi w (h @ LF # rest)" "header_ok h" "length h \<le> maxHeader"
  shows "\<exists>wi1 w1. header C mx wi w = (Inr (split_on SP h), wi1, w1) \<and> wire_reads (wi, w) (wi1, w1) \<and>
    delivers C mx wi1 w1 rest"
proof (cases "wi_key wi")
  case None
  with assms(1) have "arrived (w_inbox w (wi_conn wi)) = h @ LF # rest" by (simp add: delivers_def)
  from header_raw [OF None this assms(2,3), of C mx] show ?thesis
    by (fastforce simp: delivers_def dest: header_reads)
next
  case (Some key)
  with assms(1) have "sealed_offer C mx key wi w (h @ LF # rest)" by (simp add: delivers_def)
  with sealed_src.line_offers [of C mx key "(wi, w)" h rest] header_ok_no_LF [OF assms(2)] assms(3)
  obtain wi1 w1 where l: "line (secure_source C mx) (wi, w) = (line_fields h, wi1, w1)" "sealed_offer C mx key wi1 w1 rest"
    by auto
  then have "header C mx wi w = (Inr (split_on SP h), wi1, w1)"
    using Some assms(2) by (simp add: header_def line_fields_header)
  moreover have "wi_key wi1 = Some key" using l(2) by (auto simp: sealed_offer_def framed_def)
  ultimately show ?thesis using l(2) by (auto simp: delivers_def dest: header_reads)
qed

lemma wire_bytes_delivers:
  assumes "delivers C mx wi w (data @ rest)"
  shows "\<exists>wi1 w1. wire_bytes C (length data) mx wi w = (Inr data, wi1, w1) \<and> wire_reads (wi, w) (wi1, w1) \<and>
    delivers C mx wi1 w1 rest"
proof (cases "wi_key wi")
  case None
  with assms have "arrived (w_inbox w (wi_conn wi)) = data @ rest" by (simp add: delivers_def)
  from read_full_arrived [OF this] None have "\<exists>w1. wire_bytes C (length data) mx wi w = (Inr data, wi, w1) \<and> delivers C mx wi w1 rest"
    by (auto simp: wire_bytes_def rawBytes_def delivers_def)
  then show ?thesis by (blast dest: wire_bytes_props(1))
next
  case (Some key)
  with assms have "sealed_offer C mx key wi w (data @ rest)" by (simp add: delivers_def)
  from wire_bytes_sealed [OF this] obtain wi1 w1 where b: "wire_bytes C (length data) mx wi w = (Inr data, wi1, w1)"
    "sealed_offer C mx key wi1 w1 rest" by blast
  moreover have "wi_key wi1 = Some key" using b(2) by (auto simp: sealed_offer_def framed_def)
  ultimately show ?thesis by (auto simp: delivers_def dest: wire_bytes_props(1))
qed

text \<open>Reading a header in the clear leaves the wire as it is.\<close>

interpretation fixed_src: byte_source raw_source "\<lambda>s t. fst t = fst s" "\<lambda>_ _. False" "\<lambda>_. True"
  by unfold_locales (auto simp: raw_source_def split: prod.splits)

lemma header_fixed: "header C mx wi w = (r, wi1, w1) \<Longrightarrow> wi_key wi = None \<Longrightarrow> wi1 = wi"
  using fixed_src.line_step by (fastforce simp: header_def)


section \<open>A transport that delivers\<close>

text \<open>No TLS handshake, deadline call or write fails; a sealed request also needs a nonce.\<close>

definition calm :: "world \<Rightarrow> bool" where
  "calm w \<longleftrightarrow> w_tls w = [] \<and> w_arms w = [] \<and> w_writes w = []"

definition supplied :: "nat \<Rightarrow> world \<Rightarrow> bool" where
  "supplied k w \<longleftrightarrow> k \<le> length (w_rands w) \<and> None \<notin> set (w_rands w)"

text \<open>\<open>k\<close> further requests can be sent, and \<open>bs\<close> is on its way.\<close>

definition awaits :: "crypto \<Rightarrow> int \<Rightarrow> nat \<Rightarrow> wire \<Rightarrow> world \<Rightarrow> bytes \<Rightarrow> bool" where
  "awaits C mx k wi w bs \<longleftrightarrow> calm w \<and> (wi_key wi \<noteq> None \<longrightarrow> supplied k w) \<and> delivers C mx wi w bs"

text \<open>What happens on connection \<open>i\<close> leaves the others as they are, but for the nonces it uses.\<close>

definition aside :: "nat \<Rightarrow> nat \<Rightarrow> world \<Rightarrow> world \<Rightarrow> bool" where
  "aside n i w w1 \<longleftrightarrow> evolves w w1 \<and> w_next w1 = w_next w \<and> w_dials w1 = w_dials w \<and> w_tls w1 = w_tls w \<and> w_arms w1 = w_arms w \<and> w_writes w1 = w_writes w \<and>
     (\<exists>m \<le> n. w_rands w1 = drop m (w_rands w)) \<and> (\<forall>j. j \<noteq> i \<longrightarrow> w_inbox w1 j = w_inbox w j)"

lemma aside_refl [simp]: "aside n i w w"
  by (auto simp: aside_def intro: exI [of _ 0])

lemma aside_trans: "aside a i w w1 \<Longrightarrow> aside b i w1 w2 \<Longrightarrow> aside (a + b) i w w2"
  unfolding aside_def by (elim conjE exE, intro conjI)
    (auto intro: evolves_trans add_mono simp: add.commute)

lemma reads_aside: "reads_on i w w1 \<Longrightarrow> aside 0 i w w1"
  by (auto simp: reads_on_def reads_only_def aside_def)

lemma aside_reads: "aside n i w w1 \<Longrightarrow> wire_reads (wi, w1) (wi1, w2) \<Longrightarrow> wi_conn wi = i \<Longrightarrow> aside n i w w2"
  using aside_trans [of n i w w1 0 w2] by (simp add: wire_reads_def reads_aside)

lemma tick_aside: "aside 0 i w (tick w)"
  by (simp add: aside_def tick_evolves)

lemma aside_tick: "aside n i (tick w) w1 \<Longrightarrow> aside n i w w1"
  using aside_trans [OF tick_aside, of n i w w1] by simp

lemma aside_tick_right: "aside n i w w1 \<Longrightarrow> aside n i w (tick w1)"
  using aside_trans [OF _ tick_aside, of n i w w1] by simp

lemma calm_aside: "aside n i w w1 \<Longrightarrow> calm w1 = calm w"
  by (simp add: aside_def calm_def)

lemma supplied_aside: "aside n i w w1 \<Longrightarrow> supplied (n + k) w \<Longrightarrow> supplied k w1"
  by (auto simp: aside_def supplied_def dest: in_set_dropD)

lemma awaits_other:
  "awaits C mx (n + k) wi w bs \<Longrightarrow> aside n i w w1 \<Longrightarrow> wi_conn wi \<noteq> i \<Longrightarrow> awaits C mx k wi w1 bs"
  using delivers_cong [of w1 wi w C mx bs] calm_aside [of n i w w1] supplied_aside [of n i w w1 k]
  by (auto simp: awaits_def aside_def)

lemma awaits_tick [simp]: "awaits C mx k wi (tick w) bs = awaits C mx k wi w bs"
  unfolding awaits_def using delivers_cong [of "tick w" wi w C mx bs] by (simp add: calm_def supplied_def)

lemma awaits_less: "awaits C mx k wi w bs \<Longrightarrow> j \<le> k \<Longrightarrow> awaits C mx j wi w bs"
  by (auto simp: awaits_def supplied_def)

lemma awaits_reads:
  "awaits C mx k wi w bs \<Longrightarrow> wire_reads (wi, w) (wi1, w1) \<Longrightarrow> delivers C mx wi1 w1 rest \<Longrightarrow> awaits C mx k wi1 w1 rest"
  by (auto simp: awaits_def wire_reads_def reads_on_def reads_only_def calm_def supplied_def)

text \<open>A header, and a body, that is awaited.\<close>

lemma header_awaits:
  assumes "awaits C mx k wi w (h @ LF # rest)" "header_ok h" "length h \<le> maxHeader"
  shows "\<exists>wi1 w1. header C mx wi w = (Inr (split_on SP h), wi1, w1) \<and> wire_reads (wi, w) (wi1, w1) \<and>
    awaits C mx k wi1 w1 rest"
  using header_delivers [OF _ assms(2,3), of C mx wi w rest] awaits_reads [OF assms(1)] assms(1)
  unfolding awaits_def [of C mx k wi w] by blast

lemma wire_bytes_awaits:
  assumes "awaits C mx k wi w (data @ rest)"
  shows "\<exists>wi1 w1. wire_bytes C (length data) mx wi w = (Inr data, wi1, w1) \<and> wire_reads (wi, w) (wi1, w1) \<and>
    awaits C mx k wi1 w1 rest"
  using wire_bytes_delivers [of C mx wi w data rest] awaits_reads [OF assms] assms
  unfolding awaits_def [of C mx k wi w] by blast


section \<open>An exchange over it\<close>

lemma conn_arm_calm:
  "calm w \<Longrightarrow> \<exists>w1. conn_arm i t w = (None, w1) \<and> aside 0 i w w1 \<and> w_inbox w1 = w_inbox w"
  using conn_arm_evolves [of i t w None] by (auto simp: conn_arm_def calm_def Let_def aside_def)

lemma encrypt_supplied:
  assumes "supplied (Suc k) w"
  shows "\<exists>nonce w1. encrypt C key m w = (Inr (nonce @ seal C key nonce m), w1) \<and> length nonce = 24 \<and>
    aside 1 i w w1 \<and> w_inbox w1 = w_inbox w"
proof -
  from assms obtain n rs where r: "w_rands w = Some n # rs"
    by (cases "w_rands w"; cases "hd (w_rands w)") (auto simp: supplied_def)
  then have "aside 1 i w (w\<lparr>w_rands := rs\<rparr>)"
    by (auto simp: aside_def evolves_def intro: exI [of _ 1])
  with r show ?thesis by (auto simp: encrypt_def rand_nonce_def intro: exI [of _ "fit 24 n"])
qed

lemma request_frame_calm:
  assumes "wi_key wi \<noteq> None \<longrightarrow> supplied (Suc k) w"
  shows "\<exists>f w1. request_frame C wi hdr body w = (Inr f, w1) \<and> f \<noteq> [] \<and> aside 1 i w w1 \<and> w_inbox w1 = w_inbox w"
proof (cases "wi_key wi")
  case None
  then show ?thesis by (simp add: request_frame_def)
next
  case (Some key)
  with assms encrypt_supplied [of k w C key "hdr @ [LF] @ body" i] show ?thesis
    by (fastforce simp: request_frame_def Let_def)
qed

lemma write_loop_calm:
  assumes "in_time c w" "calm w" "frame \<noteq> []"
  shows "\<exists>w1. write_loop c i frame a w = (None, True, w1) \<and> aside 0 i w w1 \<and> w_inbox w1 = w_inbox w"
proof -
  let ?w1 = "(tick (tick w))\<lparr>w_sent := w_sent w @ [(i, frame)]\<rparr>"
  have "conn_write i frame (tick w) = ((length frame, None), ?w1)"
    using assms(2) by (simp add: conn_write_def calm_def Let_def)
  moreover from conn_write_evolves [OF this] have "evolves w ?w1" by (rule evolves_trans [OF tick_evolves])
  ultimately show ?thesis using assms
    by (simp add: write_loop.simps [of c i frame a w] write_loop.simps [of c i "[]"] ctx_Err_in_time aside_def)
qed

lemma exchange_awaits:
  assumes ctx: "in_time c w" and aw: "awaits C mx (Suc k) wi w bs" and ok: "request_ok opts hdr body"
    and reply: "\<And>w2. awaits C mx k wi w2 bs \<Longrightarrow> aside 1 (wi_conn wi) w w2 \<Longrightarrow> \<exists>wi1 w3. reply wi w2 = (r, wi1, w3) \<and> Q wi1 w3"
    and plain: "\<And>e. r = Inl e \<Longrightarrow> is_KErr e"
  shows "\<exists>wi1 w3. exchange C c opts hdr body reply wi w = (r, True, wi1, w3) \<and> Q wi1 w3"
proof -
  let ?i = "wi_conn wi" and ?w0 = "tick w"
  from aw have c0: "calm ?w0" and s0: "wi_key wi \<noteq> None \<longrightarrow> supplied (Suc k) ?w0"
    by (auto simp: awaits_def calm_def supplied_def)
  from request_frame_calm [OF s0, of C hdr body ?i] obtain f w1 where
    f: "request_frame C wi hdr body ?w0 = (Inr f, w1)" "f \<noteq> []" "aside 1 ?i ?w0 w1" "w_inbox w1 = w_inbox ?w0" by blast
  have c1: "calm w1" using c0 f(3) by (simp add: calm_aside)
  obtain w2 where a: "conn_arm ?i (deadline c (WriteTimeout opts) (w_clock w1)) w1 = (None, w2)"
    "aside 0 ?i w1 w2" "w_inbox w2 = w_inbox w1" using conn_arm_calm [OF c1] by blast
  have c2: "calm w2" using c1 a(2) by (simp add: calm_aside)
  have t2: "in_time c w2" using ctx f(3) a(2) in_time_evolves [of _ _ c] by (metis aside_def in_time_tick)
  obtain w3 where wr: "write_loop c ?i f False w2 = (None, True, w3)" "aside 0 ?i w2 w3" "w_inbox w3 = w_inbox w2"
    using write_loop_calm [OF t2 c2 f(2)] by blast
  have sr: "send_request C c opts hdr body wi w = (None, True, w3)"
    using ctx ok f(1) a(1) wr(1) by (simp add: send_request_def ctx_Err_in_time)
  have c3: "calm w3" using c2 wr(2) by (simp add: calm_aside)
  obtain w4 where b: "conn_arm ?i (deadline c (ReadTimeout opts) (w_clock w3)) w3 = (None, w4)"
    "aside 0 ?i w3 w4" "w_inbox w4 = w_inbox w3" using conn_arm_calm [OF c3] by blast
  have as: "aside 1 ?i w (tick w4)"
    using aside_trans [OF aside_trans [OF aside_trans [OF f(3) a(2)] wr(2)] b(2)]
    by (simp add: aside_tick aside_tick_right)
  have ib: "w_inbox (tick w4) = w_inbox w" using f(4) a(3) wr(3) b(3) by simp
  have "in_time c w4" using as in_time_evolves [of w "tick w4" c] ctx by (simp add: aside_def)
  moreover have "awaits C mx k wi (tick w4) bs"
    using aw calm_aside [OF as] supplied_aside [OF as, of k] delivers_cong [of "tick w4" wi w C mx bs] ib by (simp add: awaits_def)
  from reply [OF this as] obtain wi1 w5 where rp: "reply wi (tick w4) = (r, wi1, w5)" "Q wi1 w5" by blast
  ultimately have "await_reply c opts reply wi w3 = (r, wi1, w5)"
    using b(1) plain by (auto simp: await_reply_def ctx_Err_in_time split: sum.split)
  with sr rp(2) show ?thesis by (simp add: exchange_def)
qed

text \<open>One round of the handshake.\<close>

lemma ack_awaits:
  assumes "in_time c w" "awaits C (MaxFrameBytes opts) (Suc k) wi w (h @ LF # rest)" "header_ok h" "length h \<le> maxHeader"
    "request_ok opts hdr []" "expect (split_on SP h) tag n auth = None"
  shows "\<exists>wi1 w1. ack C c opts hdr tag n auth wi w = (Inr (split_on SP h), wi1, w1) \<and> wi_conn wi1 = wi_conn wi \<and>
    wi_key wi1 = wi_key wi \<and> (wi_key wi = None \<longrightarrow> wi1 = wi) \<and> aside 1 (wi_conn wi) w w1 \<and>
    awaits C (MaxFrameBytes opts) k wi1 w1 rest"
proof -
  let ?mx = "MaxFrameBytes opts"
  let ?Q = "\<lambda>wi1 w1. wi_conn wi1 = wi_conn wi \<and> wi_key wi1 = wi_key wi \<and> (wi_key wi = None \<longrightarrow> wi1 = wi) \<and>
    aside 1 (wi_conn wi) w w1 \<and> awaits C ?mx k wi1 w1 rest"
  have "\<exists>wi1 w3. header C ?mx wi w2 = (Inr (split_on SP h), wi1, w3) \<and> ?Q wi1 w3"
    if "awaits C ?mx k wi w2 (h @ LF # rest)" "aside 1 (wi_conn wi) w w2" for w2
    using header_awaits [OF that(1) assms(3,4)] aside_reads [OF that(2)] header_fixed
    by (fastforce simp: wire_reads_def)
  from exchange_awaits [OF assms(1,2,5), where reply = "header C ?mx" and Q = ?Q, OF this] assms(6)
  show ?thesis by (auto simp: ack_def)
qed

lemma in_time_aside: "aside n i w w1 \<Longrightarrow> in_time c w1 = in_time c w"
  by (simp add: aside_def in_time_evolves)

end
