(* ===== verification/Run_Laws.thy ===== *)
theory Run_Laws
  imports Delivery
begin

text \<open>
  Runs against a server that follows the protocol: the handshake of any accepted options
  succeeds, with and without a secret key, and so does connecting a node.
\<close>


section \<open>The answers of a server to the handshake\<close>

text \<open>What follows authentication, and the whole when nothing is sealed.\<close>

definition greeting_rest :: "Options \<Rightarrow> bytes" where
  "greeting_rest opts =
     (if Galaxy opts = [] then [] else ''OK galaxy'' @ [LF]) @
     ''WIREVER 1'' @ [LF] @ ''OK codec-metadata'' @ [LF]"

definition greeting :: "Options \<Rightarrow> bytes" where
  "greeting opts = (if Username (Creds opts) = [] then [] else ''OK auth'' @ [LF]) @ greeting_rest opts"

definition secret_auth :: "Options \<Rightarrow> bool" where
  "secret_auth opts \<longleftrightarrow> Username (Creds opts) \<noteq> [] \<and> SecretKey (Creds opts) \<noteq> []"

text \<open>On the new connection \<open>i\<close> the server answers the handshake, then sends \<open>bs\<close>; with a
  secret key, everything after the authentication is in sealed frames, and \<open>k\<close> requests
  find a nonce.\<close>

definition welcomes :: "crypto \<Rightarrow> Options \<Rightarrow> nat \<Rightarrow> nat \<Rightarrow> world \<Rightarrow> bytes \<Rightarrow> bool" where
  "welcomes C opts k i w bs \<longleftrightarrow>
     (if secret_auth opts then supplied k w \<and>
        (\<exists>chal fs rest. length chal = 32 \<and>
           arrived (w_inbox w i) = ''CHAL '' @ hex_encode chal @ LF # ''OK auth'' @ LF #
             concat (map (sec_frame C (transport_key C (Creds opts) (hex_encode chal))) fs) @ rest \<and>
           sealing C (transport_key C (Creds opts) (hex_encode chal)) (MaxFrameBytes opts) \<and>
           list_all (\<lambda>(nonce, m). length nonce = 24) fs \<and> concat (map snd fs) = greeting_rest opts @ bs \<and>
           int (length (greeting_rest opts @ bs)) \<le> MaxFrameBytes opts + int maxHeader + 1)
      else arrived (w_inbox w i) = greeting opts @ bs)"

lemma welcomes_other:
  "welcomes C opts (n + k) i w bs \<Longrightarrow> aside n j w w1 \<Longrightarrow> i \<noteq> j \<Longrightarrow> welcomes C opts k i w1 bs"
  using supplied_aside [of n j w w1 k] by (auto simp: welcomes_def aside_def)

lemma welcomes_cong:
  "w_inbox w1 i = w_inbox w i \<Longrightarrow> w_rands w1 = w_rands w \<Longrightarrow> welcomes C opts k i w1 bs = welcomes C opts k i w bs"
  by (simp add: welcomes_def supplied_def)

lemma greeting_lines:
  "header_ok ''OK auth''" "header_ok ''OK galaxy''" "header_ok ''WIREVER 1''" "header_ok ''OK codec-metadata''"
  "length ''OK auth'' \<le> maxHeader" "length ''OK galaxy'' \<le> maxHeader"
  "length ''WIREVER 1'' \<le> maxHeader" "length ''OK codec-metadata'' \<le> maxHeader"
  by (simp_all add: header_ok_def byte_def maxHeader_def)


section \<open>The handshake\<close>

definition fresh_wire :: "nat \<Rightarrow> wire" where
  "fresh_wire i = \<lparr>wi_conn = i, wi_key = None, wi_plain = []\<rparr>"

lemma fresh_wire_simps [simp]: "wi_conn (fresh_wire i) = i" "wi_key (fresh_wire i) = None" "wi_plain (fresh_wire i) = []"
  by (simp_all add: fresh_wire_def)

lemma awaits_fresh: "awaits C mx k (fresh_wire i) w bs \<longleftrightarrow> calm w \<and> arrived (w_inbox w i) = bs"
  by (simp add: awaits_def delivers_def)

lemma hs_auth_welcome:
  assumes ctx: "in_time c w" and opt: "options_ok opts" and calm: "calm w" and wel: "welcomes C opts (3 + k) i w bs"
  shows "\<exists>wi1 w1. hs_auth C c opts (fresh_wire i) w = (None, wi1, w1) \<and> wi_conn wi1 = i \<and> aside 3 i w w1 \<and>
    awaits C (MaxFrameBytes opts) k wi1 w1 (greeting_rest opts @ bs)"
proof (cases "secret_auth opts")
  case False
  show ?thesis
  proof (cases "Username (Creds opts) = []")
    case True
    with False calm wel show ?thesis by (simp add: hs_auth_def welcomes_def greeting_def awaits_fresh)
  next
    case user: False
    with False have sk: "SecretKey (Creds opts) = []" by (simp add: secret_auth_def)
    have "awaits C (MaxFrameBytes opts) (Suc k) (fresh_wire i) w (''OK auth'' @ LF # greeting_rest opts @ bs)"
      using False user calm wel by (simp add: awaits_fresh welcomes_def greeting_def)
    from ack_awaits [OF ctx this greeting_lines(1,5) auth_header_ok [OF opt], of "''OK''" 2 True] user sk
    obtain w1 where "hs_auth C c opts (fresh_wire i) w = (None, fresh_wire i, w1)" "aside 1 i w w1"
      "awaits C (MaxFrameBytes opts) k (fresh_wire i) w1 (greeting_rest opts @ bs)"
      by (auto simp: hs_auth_def Let_def expect_def)
    with aside_trans [of 1 i w w1 2 w1] show ?thesis by (auto simp: numeral_3_eq_3)
  qed
next
  case True
  then have cr: "Username (Creds opts) \<noteq> []" "SecretKey (Creds opts) \<noteq> []" by (simp_all add: secret_auth_def)
  let ?mx = "MaxFrameBytes opts" and ?cr = "Creds opts"
  from wel True obtain chal fs rest where chal: "length chal = 32" and nonces: "supplied (3 + k) w"
    and ib: "arrived (w_inbox w i) = (''CHAL '' @ hex_encode chal) @ LF # ''OK auth'' @ LF #
        concat (map (sec_frame C (transport_key C ?cr (hex_encode chal))) fs) @ rest"
    and se: "sealing C (transport_key C ?cr (hex_encode chal)) ?mx" "list_all (\<lambda>(nonce, m). length nonce = 24) fs"
      "concat (map snd fs) = greeting_rest opts @ bs" "int (length (greeting_rest opts @ bs)) \<le> ?mx + int maxHeader + 1"
    by (auto simp: welcomes_def)
  let ?chal = "hex_encode chal" and ?key = "transport_key C ?cr (hex_encode chal)"
  let ?rest2 = "concat (map (sec_frame C ?key) fs) @ rest"
  have hx: "printable ?chal" "SP \<notin> set ?chal"
    using hex_encode_set [of chal]
    by (auto simp: printable_def list_all_iff hex_alphabet_def is_digit_def byte_def subset_iff)
  have h: "header_ok (''CHAL '' @ ?chal)" "length (''CHAL '' @ ?chal) \<le> maxHeader"
    using hx(1) chal by (simp_all add: header_ok_printable maxHeader_def) (simp add: printable_def byte_def)
  have sp: "split_on SP (''CHAL '' @ ?chal) = [''CHAL'', ?chal]"
    using split_on_append [of SP "''CHAL''" ?chal] split_on_single [OF hx(2)] by simp
  have aw: "awaits C ?mx (Suc 0) (fresh_wire i) w ((''CHAL '' @ ?chal) @ LF # ''OK auth'' @ LF # ?rest2)"
    using calm ib by (simp add: awaits_fresh)
  from ack_awaits [OF ctx aw h chal_header_ok [OF opt], of "''CHAL''" 2 True, unfolded sp]
  obtain w1 where a: "ack C c opts (''AUTHCHAL '' @ Username ?cr) ''CHAL'' 2 True (fresh_wire i) w = (Inr [''CHAL'', ?chal], fresh_wire i, w1)"
    "aside 1 i w w1" "awaits C ?mx 0 (fresh_wire i) w1 (''OK auth'' @ LF # ?rest2)"
    by (auto simp: expect_def)
  have "supplied (Suc (Suc k)) w1" using supplied_aside [OF a(2), of "Suc (Suc k)"] nonces by (simp add: numeral_3_eq_3)
  from encrypt_supplied [OF this, of C "box_key C ?cr" "auth_message ?cr ?chal" i]
  obtain nonce w2 where e: "encrypt C (box_key C ?cr) (auth_message ?cr ?chal) w1 =
      (Inr (nonce @ seal C (box_key C ?cr) nonce (auth_message ?cr ?chal)), w2)"
    "length nonce = 24" "aside 1 i w1 w2" "w_inbox w2 = w_inbox w1" by blast
  have t2: "in_time c w2" using ctx in_time_aside [OF a(2)] in_time_aside [OF e(3)] by simp
  have aw2: "awaits C ?mx (Suc 0) (fresh_wire i) w2 (''OK auth'' @ LF # ?rest2)"
    using a(3) calm_aside [OF e(3)] e(4) by (simp add: awaits_fresh)
  have ok: "request_ok opts (''AUTHRESP '' @ hex_encode (nonce @ seal C (box_key C ?cr) nonce (auth_message ?cr ?chal))) []"
    using resp_header_ok [OF opt _ e(2)] se(1) chal by (simp add: sealing_def)
  from ack_awaits [OF t2 aw2 greeting_lines(1,5) ok, of "''OK''" 2 True]
  obtain w3 where b: "ack C c opts (''AUTHRESP '' @ hex_encode (nonce @ seal C (box_key C ?cr) nonce (auth_message ?cr ?chal)))
      ''OK'' 2 True (fresh_wire i) w2 = (Inr [''OK'', ''auth''], fresh_wire i, w3)"
    "aside 1 i w2 w3" "awaits C ?mx 0 (fresh_wire i) w3 ?rest2"
    by (auto simp: expect_def)
  let ?wi = "(fresh_wire i)\<lparr>wi_key := Some ?key\<rparr>"
  have "hs_auth C c opts (fresh_wire i) w = (None, ?wi, w3)"
    using cr a(1) e(1) b(1) chal by (simp add: hs_auth_def Let_def)
  moreover have as: "aside 3 i w w3"
    using aside_trans [OF aside_trans [OF a(2) e(3)] b(2)] by (simp add: numeral_3_eq_3)
  moreover have "framed C ?key ?wi w3 fs (greeting_rest opts @ bs)"
    using b(3) se(2,3) by (auto simp: framed_def awaits_fresh)
  then have "awaits C ?mx k ?wi w3 (greeting_rest opts @ bs)"
    using b(3) supplied_aside [OF as nonces] se(1,4) by (auto simp: awaits_def delivers_def sealed_offer_def)
  ultimately show ?thesis by auto
qed

lemma hs_galaxy_welcome:
  assumes ctx: "in_time c w" and opt: "options_ok opts"
    and aw: "awaits C (MaxFrameBytes opts) (Suc k) wi w (greeting_rest opts @ bs)"
  shows "\<exists>wi1 w1. hs_galaxy C c opts wi w = (None, wi1, w1) \<and> wi_conn wi1 = wi_conn wi \<and> aside 1 (wi_conn wi) w w1 \<and>
    awaits C (MaxFrameBytes opts) k wi1 w1 (''WIREVER 1'' @ LF # ''OK codec-metadata'' @ LF # bs)"
proof (cases "Galaxy opts = []")
  case True
  with aw awaits_less [of C "MaxFrameBytes opts" "Suc k"] show ?thesis by (auto simp: hs_galaxy_def greeting_rest_def)
next
  case False
  with aw have "awaits C (MaxFrameBytes opts) (Suc k) wi w (''OK galaxy'' @ LF # ''WIREVER 1'' @ LF # ''OK codec-metadata'' @ LF # bs)"
    by (simp add: greeting_rest_def)
  from ack_awaits [OF ctx this greeting_lines(2,6) hello_header_ok [OF opt], of "''OK''" 2 True] False
  show ?thesis by (auto simp: hs_galaxy_def expect_def)
qed

lemma hs_version_welcome:
  assumes ctx: "in_time c w" and opt: "options_ok opts"
    and aw: "awaits C (MaxFrameBytes opts) (2 + k) wi w (''WIREVER 1'' @ LF # ''OK codec-metadata'' @ LF # bs)"
  shows "\<exists>wi1 w1. hs_version C c opts wi w = (None, wi1, w1) \<and> wi_conn wi1 = wi_conn wi \<and> aside 2 (wi_conn wi) w w1 \<and>
    awaits C (MaxFrameBytes opts) k wi1 w1 bs"
proof -
  have "awaits C (MaxFrameBytes opts) (Suc (Suc k)) wi w (''WIREVER 1'' @ LF # ''OK codec-metadata'' @ LF # bs)"
    using aw by simp
  from ack_awaits [OF ctx this greeting_lines(3,7), of "''WIREVER''" "''WIREVER''" 2 True] version_header_ok [OF opt]
  obtain wi1 w1 where v: "ack C c opts ''WIREVER'' ''WIREVER'' 2 True wi w = (Inr [''WIREVER'', ''1''], wi1, w1)"
    "wi_conn wi1 = wi_conn wi" "aside 1 (wi_conn wi) w w1" "awaits C (MaxFrameBytes opts) (Suc k) wi1 w1 (''OK codec-metadata'' @ LF # bs)"
    by (auto simp: expect_def)
  have t: "in_time c w1" using ctx in_time_aside [OF v(3)] by simp
  from ack_awaits [OF t v(4) greeting_lines(4,8), of "''CODECMETA ON''" "''OK''" 2 False] version_header_ok [OF opt] v(2)
  obtain wi2 w2 where m: "ack C c opts ''CODECMETA ON'' ''OK'' 2 False wi1 w1 = (Inr [''OK'', ''codec-metadata''], wi2, w2)"
    "wi_conn wi2 = wi_conn wi" "aside 1 (wi_conn wi) w1 w2" "awaits C (MaxFrameBytes opts) k wi2 w2 bs"
    by (auto simp: expect_def)
  with v aside_trans [OF v(3) m(3)] show ?thesis by (auto simp: hs_version_def numeral_2_eq_2)
qed

lemma handshake_welcome:
  assumes ctx: "in_time c w" and opt: "options_ok opts" and calm: "calm w" and wel: "welcomes C opts (6 + k) i w bs"
  shows "\<exists>wi1 w1. handshake C c opts (fresh_wire i) w = (None, wi1, w1) \<and> wi_conn wi1 = i \<and> aside 6 i w w1 \<and>
    awaits C (MaxFrameBytes opts) k wi1 w1 bs"
proof -
  have "welcomes C opts (3 + Suc (2 + k)) i w bs" using wel by (simp add: eval_nat_numeral)
  from hs_auth_welcome [OF ctx opt calm this] obtain wi1 w1 where
    a: "hs_auth C c opts (fresh_wire i) w = (None, wi1, w1)" "wi_conn wi1 = i" "aside 3 i w w1"
      "awaits C (MaxFrameBytes opts) (Suc (2 + k)) wi1 w1 (greeting_rest opts @ bs)" by blast
  have t1: "in_time c w1" using ctx in_time_aside [OF a(3)] by simp
  from hs_galaxy_welcome [OF t1 opt a(4)] a(2) obtain wi2 w2 where
    g: "hs_galaxy C c opts wi1 w1 = (None, wi2, w2)" "wi_conn wi2 = i" "aside 1 i w1 w2"
      "awaits C (MaxFrameBytes opts) (2 + k) wi2 w2 (''WIREVER 1'' @ LF # ''OK codec-metadata'' @ LF # bs)" by metis
  have t2: "in_time c w2" using t1 in_time_aside [OF g(3)] by simp
  from hs_version_welcome [OF t2 opt g(4)] g(2) obtain wi3 w3 where
    v: "hs_version C c opts wi2 w2 = (None, wi3, w3)" "wi_conn wi3 = i" "aside 2 i w2 w3"
      "awaits C (MaxFrameBytes opts) k wi3 w3 bs" by metis
  have "aside 6 i w w3" using aside_trans [OF aside_trans [OF a(3) g(3)] v(3)] by simp
  with a(1) g(1) v show ?thesis by (auto simp: handshake_def)
qed


section \<open>Connecting a node\<close>

text \<open>Opening a connection is done before its timeout.\<close>

definition swift :: "client \<Rightarrow> world \<Rightarrow> bool" where
  "swift c w \<longleftrightarrow> horizon w < w_clock w + ConnectTimeout (cl_opts c)"

lemma in_time_timeout: "in_time c w \<Longrightarrow> horizon w < t + d \<Longrightarrow> in_time (with_timeout c d t) w"
  using with_timeout_err [of c d t "horizon w"] by (cases "ctx_err_at (with_timeout c d t) (horizon w)") (auto simp: in_time_def)

lemma swift_evolves: "evolves w w1 \<Longrightarrow> swift c w \<Longrightarrow> swift c w1"
  by (simp add: swift_def evolves_def)

lemma start_tls_calm:
  assumes "calm w"
  shows "\<exists>w1. start_tls t p i w = (None, w1) \<and> aside 0 i w w1 \<and> w_inbox w1 = w_inbox w \<and> w_rands w1 = w_rands w"
proof (cases t)
  case None
  then show ?thesis by (simp add: start_tls_def)
next
  case (Some cfg)
  let ?v = "(i, cfg_ServerName (tls_client_config cfg p), cfg_InsecureSkipVerify (tls_client_config cfg p))"
  have "start_tls t p i w = (None, (tick w)\<lparr>w_verified := w_verified w @ [?v]\<rparr>)"
    using assms Some by (simp add: start_tls_def tls_handshake_def Let_def calm_def)
  moreover have "aside 0 i w ((tick w)\<lparr>w_verified := w_verified w @ [?v]\<rparr>)"
    by (simp add: aside_def evolves_def tick_clock)
  ultimately show ?thesis by simp
qed

lemma prepare_welcome:
  assumes ctx: "in_time dc w" and opt: "options_ok (cl_opts c)" and calm: "calm w"
    and wel: "welcomes C (cl_opts c) (6 + k) i w bs"
  shows "\<exists>wi w1. prepare C cx dc c node i w = (None, wi, w1) \<and> wi_conn wi = i \<and> aside 6 i w w1 \<and>
    awaits C (MaxFrameBytes (cl_opts c)) k wi w1 bs"
proof -
  obtain w0 where tls: "start_tls (cl_tls c) (cl_peers c ! nat node) i w = (None, w0)" "aside 0 i w w0" "w_inbox w0 = w_inbox w"
    "w_rands w0 = w_rands w"
    using start_tls_calm [OF calm] by blast
  have "in_time dc w0" "calm w0" "welcomes C (cl_opts c) (6 + k) i w0 bs"
    using ctx in_time_aside [OF tls(2)] calm calm_aside [OF tls(2)] wel welcomes_cong [of w0 i w] tls(3,4) by simp_all
  from handshake_welcome [OF this(1) opt this(2,3)] obtain wi w1 where
    "handshake C dc (cl_opts c) (fresh_wire i) w0 = (None, wi, w1)" "wi_conn wi = i" "aside 6 i w0 w1"
    "awaits C (MaxFrameBytes (cl_opts c)) k wi w1 bs" by blast
  with tls(1) aside_trans [OF tls(2)] show ?thesis by (fastforce simp: prepare_def fresh_wire_def)
qed

text \<open>The world in which a dial has just succeeded.\<close>

definition dialed :: "string \<Rightarrow> world \<Rightarrow> world" where
  "dialed addr w = (tick w)\<lparr>w_dials := tl (w_dials w), w_next := Suc (w_next w),
     w_dialed := w_dialed w @ [(w_next w, addr)]\<rparr>"

lemma net_dial_dialed: "w_dials w = None # ds \<Longrightarrow> net_dial a w = (Inr (w_next w), dialed a w)"
  by (simp add: net_dial_def dialed_def Let_def)

lemma dialed_simps [simp]:
  "w_next (dialed a w) = Suc (w_next w)" "w_dials (dialed a w) = tl (w_dials w)" "w_inbox (dialed a w) = w_inbox w"
  "w_rands (dialed a w) = w_rands w" "calm (dialed a w) = calm w" "in_time c (dialed a w) = in_time c w"
  by (simp_all add: dialed_def calm_def in_time_def)

lemma ensure_welcome:
  assumes ctx: "in_time cx w" "swift c w" and opt: "options_ok (cl_opts c)" and calm: "calm w"
    and cl: "\<not> cl_closed c" "0 \<le> n" "n < int (length (cl_peers c))" "map_of (cl_conns c) n = None"
    and d: "w_dials w = None # ds" and wel: "welcomes C (cl_opts c) (6 + k) (w_next w) w bs"
  shows "\<exists>wi w1. ensure C cx c n w = (Inr wi, store n wi c, w1) \<and> wi_conn wi = w_next w \<and>
    aside 6 (w_next w) (dialed (cl_peers c ! nat n) w) w1 \<and> awaits C (MaxFrameBytes (cl_opts c)) k wi w1 bs"
proof -
  let ?w = "dialed (cl_peers c ! nat n) w" and ?dc = "with_timeout cx (ConnectTimeout (cl_opts c)) (w_clock w)"
  have t: "in_time ?dc ?w" using in_time_timeout [OF ctx(1)] ctx(2) by (simp add: swift_def)
  have wl: "welcomes C (cl_opts c) (6 + k) (w_next w) ?w bs"
    using wel welcomes_cong [of ?w "w_next w" w] by simp
  from prepare_welcome [OF t opt _ wl, of cx n] calm obtain wi w1 where
    "prepare C cx ?dc c n (w_next w) ?w = (None, wi, w1)" "wi_conn wi = w_next w" "aside 6 (w_next w) ?w w1"
    "awaits C (MaxFrameBytes (cl_opts c)) k wi w1 bs" by auto
  with cl net_dial_dialed [OF d] show ?thesis by (auto simp: ensure_def Let_def)
qed

end
