(* ===== verification/Framing.thy ===== *)
theory Framing
  imports Delivery
begin

text \<open>
  Requests as a server reads them: an independent parser of the byte stream of a
  connection, and the proof that it recovers from the bytes of a request exactly the
  request that was sent, whatever bytes ring names, payloads and selections contain.
\<close>

datatype request = RPut string bytes codec | RGet ID | RQuery ID string | RHealth

fun request_header :: "request \<Rightarrow> string" where
  "request_header (RPut ring data cd) = put_header ring data cd"
| "request_header (RGet i) = read_header i None"
| "request_header (RQuery i sel) = read_header i (Some sel)"
| "request_header RHealth = ''HEALTH''"

fun request_body :: "request \<Rightarrow> bytes" where
  "request_body (RPut ring data cd) = ring @ data"
| "request_body (RGet i) = read_body None"
| "request_body (RQuery i sel) = read_body (Some sel)"
| "request_body RHealth = []"

definition request_bytes :: "request \<Rightarrow> bytes" where
  "request_bytes r = request_header r @ LF # request_body r"

definition parse_args :: "string \<Rightarrow> string list \<Rightarrow> bytes \<Rightarrow> request option" where
  "parse_args tag args body =
     (if tag = ''HEALTH'' \<and> args = [] \<and> body = [] then Some RHealth
      else if tag = ''PUTR'' \<and> length args = 4 then
        (case (parse_uint (args ! 0) 64, parse_uint (args ! 1) 64) of
           (Some n, Some m) \<Rightarrow>
             if length body = n + m \<and> args ! 2 = ''0'' then Some (RPut (take n body) (drop n body) (args ! 3)) else None
         | _ \<Rightarrow> None)
      else if tag = ''GETID'' \<and> body = [] then
        (case parseFields args of Inl _ \<Rightarrow> None | Inr i \<Rightarrow> Some (RGet i))
      else if tag = ''QRYID'' \<and> length args = 7 then
        (case (parseFields (take 6 args), parse_uint (args ! 6) 64) of
           (Inr i, Some n) \<Rightarrow> if length body = n then Some (RQuery i body) else None
         | _ \<Rightarrow> None)
      else None)"

definition parse_request :: "bytes \<Rightarrow> request option" where
  "parse_request s =
     (let h = takeWhile (\<lambda>c. c \<noteq> LF) s
      in case split_on SP h of [] \<Rightarrow> None | tag # args \<Rightarrow> parse_args tag args (drop (Suc (length h)) s))"

text \<open>What the client lets through.\<close>

fun request_valid :: "request \<Rightarrow> bool" where
  "request_valid (RPut ring data cd) \<longleftrightarrow> length ring < 2 ^ 64 \<and> length data < 2 ^ 64 \<and> codec_Valid cd"
| "request_valid (RGet i) \<longleftrightarrow> ID_valid i"
| "request_valid (RQuery i sel) \<longleftrightarrow> ID_valid i \<and> length sel < 2 ^ 64"
| "request_valid RHealth \<longleftrightarrow> True"

lemma split_put_header:
  "codec_Valid cd \<Longrightarrow> split_on SP (put_header ring data cd) = [''PUTR'', dec (length ring), dec (length data), ''0'', cd]"
  using split_on_append [of SP "''PUTR''"] split_on_append [OF dec_no_space]
    split_on_append [of SP "''0''"] split_on_single [of SP cd] codec_Valid_chars [of cd]
  by (simp add: put_header_def)

lemma split_join_more:
  "ps \<noteq> [] \<Longrightarrow> (\<And>p. p \<in> set ps \<Longrightarrow> c \<notin> set p) \<Longrightarrow> split_on c (join_with c ps @ c # s) = ps @ split_on c s"
  by (induction c ps rule: join_with.induct) (auto simp: split_on_append)

lemma id_fields_6: "length (id_fields i) = 6"
  by (simp add: id_fields_def)

lemma spaced_fields_more:
  "ID_valid i \<Longrightarrow> split_on SP (join_with SP (id_fields i) @ SP # s) = id_fields i @ split_on SP s"
  using id_fields_no_sep by (intro split_join_more) (auto simp: id_fields_def)

lemma split_read_header:
  assumes "ID_valid i"
  shows "split_on SP (read_header i None) = ''GETID'' # id_fields i"
    and "split_on SP (read_header i (Some s)) = ''QRYID'' # id_fields i @ [dec (length s)]"
proof -
  have f: "replace_all COLON SP (ID_String i) = join_with SP (id_fields i)" by (rule spaced_ID_String [OF assms])
  show "split_on SP (read_header i None) = ''GETID'' # id_fields i"
    using split_on_append [of SP "''GETID''"] split_spaced_ID [OF assms] by (simp add: read_header_def f)
  have "split_on SP (join_with SP (id_fields i) @ SP # dec (length s)) = id_fields i @ [dec (length s)]"
    using spaced_fields_more [OF assms] split_on_single [OF dec_no_space] by simp
  then show "split_on SP (read_header i (Some s)) = ''QRYID'' # id_fields i @ [dec (length s)]"
    using split_on_append [of SP "''QRYID''"] by (simp add: read_header_def f Let_def)
qed

lemma clean_no_LF: "\<not> contains_any s [CR, LF, NUL] \<Longrightarrow> LF \<notin> set s"
  by (auto simp: contains_any_iff)

lemma request_header_no_LF: "request_valid r \<Longrightarrow> LF \<notin> set (request_header r)"
proof -
  note dec = dec_clean [THEN clean_no_LF]
  show "request_valid r \<Longrightarrow> LF \<notin> set (request_header r)"
    using codec_clean [THEN clean_no_LF] read_header_clean [THEN clean_no_LF] dec
    by (cases r) (simp_all add: put_header_def read_header_def Let_def)
qed

lemma parse_request_split:
  assumes "LF \<notin> set h" "split_on SP h = tag # args"
  shows "parse_request (h @ LF # body) = parse_args tag args body"
proof -
  have "takeWhile (\<lambda>c. c \<noteq> LF) (h @ LF # body) = h"
    using assms(1) by (subst takeWhile_append2) auto
  with assms(2) show ?thesis by (simp add: parse_request_def)
qed

lemma parse_request_bytes:
  assumes "request_valid r"
  shows "parse_request (request_bytes r) = Some r"
proof (cases r)
  case (RPut ring data cd)
  with assms parse_request_split [OF request_header_no_LF [OF assms]] split_put_header [of cd ring data]
  show ?thesis by (simp add: request_bytes_def parse_args_def)
next
  case (RGet i)
  with assms parse_request_split [OF request_header_no_LF [OF assms]] split_read_header(1) [of i] parseFields_fields [of i]
  show ?thesis by (simp add: request_bytes_def parse_args_def read_body_def)
next
  case (RQuery i s)
  have "length (id_fields i) = 6" by (rule id_fields_6)
  with RQuery assms parse_request_split [OF request_header_no_LF [OF assms]] split_read_header(2) [of i s] parseFields_fields [of i]
  show ?thesis by (simp add: request_bytes_def parse_args_def read_body_def nth_append)
next
  case RHealth
  then show ?thesis using parse_request_split [of "''HEALTH''" "''HEALTH''" "[]" "[]"]
    by (simp add: request_bytes_def parse_args_def)
qed

interpretation requests: text_format request_bytes parse_request request_valid
  by unfold_locales (rule parse_request_bytes)

text \<open>Two requests with the same bytes are the same request.\<close>

lemma request_bytes_inj: "request_valid r \<Longrightarrow> request_valid s \<Longrightarrow> request_bytes r = request_bytes s \<Longrightarrow> r = s"
  by (rule requests.print_inj)

end
