(* ===== verification/Conversation.thy ===== *)
theory Conversation
  imports Run_Laws Framing
begin

text \<open>
  Conversations of a client with its nodes: the replies the nodes will give, in the order
  in which the client asks for them, over connections that are there or that it opens on
  the way, in the clear or sealed.  Each operation takes its replies off the front and
  leaves the client ready for the rest.
\<close>


section \<open>The replies to come\<close>

text \<open>What one node sends, and the nodes that are asked first without a connection.\<close>

definition stream :: "int \<Rightarrow> (int \<times> bytes) list \<Rightarrow> bytes" where
  "stream n rs = concat (map snd (filter (\<lambda>r. fst r = n) rs))"

lemma stream_simps [simp]: "stream n [] = []" "stream n ((m, b) # rs) = (if m = n then b else []) @ stream n rs"
  by (simp_all add: stream_def)

fun new_nodes :: "int set \<Rightarrow> (int \<times> bytes) list \<Rightarrow> int list" where
  "new_nodes K [] = []"
| "new_nodes K ((n, b) # rs) = (if n \<in> K then new_nodes K rs else n # new_nodes (insert n K) rs)"

definition conn_nodes :: "client \<Rightarrow> int set" where
  "conn_nodes c = fst ` set (cl_conns c)"

text \<open>The nodes answer \<open>rs\<close>, those of \<open>A\<close> excepted, and \<open>k\<close> requests find a nonce.\<close>

definition answers :: "crypto \<Rightarrow> nat \<Rightarrow> client \<Rightarrow> world \<Rightarrow> int set \<Rightarrow> (int \<times> bytes) list \<Rightarrow> bool" where
  "answers C k c w A rs \<longleftrightarrow> calm w \<and>
     (\<exists>ds. w_dials w = replicate (length (new_nodes (conn_nodes c) rs)) None @ ds) \<and>
     (\<forall>n wi. n \<notin> A \<longrightarrow> n \<in> fst ` set rs \<longrightarrow> map_of (cl_conns c) n = Some wi \<longrightarrow>
        awaits C (MaxFrameBytes (cl_opts c)) k wi w (stream n rs)) \<and>
     (\<forall>j < length (new_nodes (conn_nodes c) rs).
        welcomes C (cl_opts c) k (w_next w + j) w (stream (new_nodes (conn_nodes c) rs ! j) rs))"

lemma conn_nodes_iff: "n \<in> conn_nodes c \<longleftrightarrow> map_of (cl_conns c) n \<noteq> None"
  by (simp add: conn_nodes_def map_of_eq_None_iff)

lemma conn_nodes_store [simp]: "conn_nodes (store n wi c) = insert n (conn_nodes c)"
  by (simp add: conn_nodes_def store_def dom_update)

lemma map_of_store_other: "m \<noteq> n \<Longrightarrow> map_of (cl_conns (store n wi c)) m = map_of (cl_conns c) m"
  by (simp add: store_def update_conv)

lemma store_opts [simp]: "cl_opts (store n wi c) = cl_opts c" "cl_peers (store n wi c) = cl_peers c"
  by (simp_all add: store_def)

lemma answersD:
  "answers C k c w A rs \<Longrightarrow> n \<notin> A \<Longrightarrow> n \<in> fst ` set rs \<Longrightarrow> map_of (cl_conns c) n = Some wi \<Longrightarrow>
     awaits C (MaxFrameBytes (cl_opts c)) k wi w (stream n rs)"
  by (simp add: answers_def)

lemma answers_welcomes:
  "answers C k c w A rs \<Longrightarrow> j < length (new_nodes (conn_nodes c) rs) \<Longrightarrow>
     welcomes C (cl_opts c) k (w_next w + j) w (stream (new_nodes (conn_nodes c) rs ! j) rs)"
  by (simp add: answers_def)

lemma inv_conn_less:
  assumes "client_inv F c w" "map_of (cl_conns c) n = Some wi"
  shows "wi_conn wi < w_next w"
proof -
  have "wi_conn wi \<in> set (conn_ids c)" using map_of_SomeD [OF assms(2)] by (force simp: conn_ids_def)
  with assms(1) have "wi_conn wi \<in> open_conns w" by (auto simp: client_inv_def owns_def)
  then show ?thesis by (simp add: open_conns_def)
qed

lemma inv_conn_distinct:
  assumes "client_inv F c w" "map_of (cl_conns c) n = Some wi" "map_of (cl_conns c) m = Some wj" "n \<noteq> m"
  shows "wi_conn wi \<noteq> wi_conn wj"
proof -
  have "distinct (map (wi_conn \<circ> snd) (cl_conns c))" using assms(1) by (simp add: client_inv_def client_ok_def conn_ids_def)
  then have "inj_on (wi_conn \<circ> snd) (set (cl_conns c))" by (simp add: distinct_map)
  from inj_onD [OF this, of "(n, wi)" "(m, wj)"] map_of_SomeD [OF assms(2)] map_of_SomeD [OF assms(3)] assms(4)
  show ?thesis by auto
qed


section \<open>Replies stay while others are read\<close>

lemma answers_aside:
  assumes "answers C (n + k) c w A rs" "aside n i w w1" "i < w_next w"
    and "\<And>m wi. m \<notin> A \<Longrightarrow> map_of (cl_conns c) m = Some wi \<Longrightarrow> wi_conn wi \<noteq> i"
  shows "answers C k c w1 A rs"
  unfolding answers_def
proof (intro conjI allI impI)
  have eq: "w_next w1 = w_next w" "w_dials w1 = w_dials w" using assms(2) by (simp_all add: aside_def)
  show "calm w1" using assms(1) calm_aside [OF assms(2)] by (simp add: answers_def)
  show "\<exists>ds. w_dials w1 = replicate (length (new_nodes (conn_nodes c) rs)) None @ ds"
    using assms(1) eq by (simp add: answers_def)
  show "awaits C (MaxFrameBytes (cl_opts c)) k wi w1 (stream m rs)"
    if "m \<notin> A" "m \<in> fst ` set rs" "map_of (cl_conns c) m = Some wi" for m wi
    using assms(1) that awaits_other [OF _ assms(2) assms(4) [OF that(1,3)]] by (simp add: answers_def)
  show "welcomes C (cl_opts c) k (w_next w1 + j) w1 (stream (new_nodes (conn_nodes c) rs ! j) rs)"
    if "j < length (new_nodes (conn_nodes c) rs)" for j
    using assms(1) that eq welcomes_other [OF _ assms(2), of C "cl_opts c" k "w_next w + j"] assms(3) by (simp add: answers_def)
qed

lemma answers_less: "answers C k c w A rs \<Longrightarrow> j \<le> k \<Longrightarrow> answers C j c w A rs"
proof -
  assume a: "answers C k c w A rs" "j \<le> k"
  have "welcomes C (cl_opts c) j i w bs" if "welcomes C (cl_opts c) k i w bs" for i bs
    using that a(2) by (auto simp: welcomes_def supplied_def)
  with a awaits_less [of C _ k _ w _ j] show ?thesis unfolding answers_def by blast
qed

lemma answers_store:
  assumes "answers C k c w {n} rs" "n \<in> conn_nodes c" "awaits C (MaxFrameBytes (cl_opts c)) k wi w (stream n rs)"
  shows "answers C k (store n wi c) w {} rs"
proof -
  have "insert n (conn_nodes c) = conn_nodes c" using assms(2) by blast
  with assms map_of_store_other [of _ n wi c] show ?thesis
    unfolding answers_def conn_nodes_store store_opts by (metis map_of_store option.inject singletonD)
qed

text \<open>The node that is asked next is connected, or is connected first.\<close>

lemma new_nodes_new: "m \<in> set (new_nodes K rs) \<Longrightarrow> m \<notin> K"
  by (induction K rs rule: new_nodes.induct) (auto split: if_splits)

lemma new_nodes_nth: "j < length (new_nodes (conn_nodes c) rs) \<Longrightarrow> n \<in> conn_nodes c \<Longrightarrow> new_nodes (conn_nodes c) rs ! j \<noteq> n"
  using new_nodes_new [of n "conn_nodes c" rs] nth_mem by metis

lemma answers_connected:
  assumes "answers C k c w {} ((n, b) # rs)" "map_of (cl_conns c) n = Some wi"
  shows "awaits C (MaxFrameBytes (cl_opts c)) k wi w (b @ stream n rs) \<and> answers C k c w {n} rs"
proof -
  have n: "n \<in> conn_nodes c" using assms(2) by (simp add: conn_nodes_iff)
  have nn: "new_nodes (conn_nodes c) ((n, b) # rs) = new_nodes (conn_nodes c) rs" using n by simp
  have "awaits C (MaxFrameBytes (cl_opts c)) k wj w (stream m rs)"
    if "m \<notin> {n}" "m \<in> fst ` set rs" "map_of (cl_conns c) m = Some wj" for m wj
    using answersD [OF assms(1), of m wj] that by simp
  moreover have "welcomes C (cl_opts c) k (w_next w + j) w (stream (new_nodes (conn_nodes c) rs ! j) rs)"
    if "j < length (new_nodes (conn_nodes c) rs)" for j
    using answers_welcomes [OF assms(1), unfolded nn, OF that] new_nodes_nth [OF that n] by simp
  ultimately have "answers C k c w {n} rs" using assms(1) unfolding answers_def nn by blast
  with answersD [OF assms(1) _ _ assms(2)] show ?thesis by simp
qed

lemma answers_new:
  assumes ans: "answers C (6 + k) c w {} ((n, b) # rs)" and n: "map_of (cl_conns c) n = None" and inv: "client_inv F c w"
  shows "(\<exists>ds. w_dials w = None # ds) \<and> welcomes C (cl_opts c) (6 + k) (w_next w) w (b @ stream n rs) \<and>
    (\<forall>w1. aside 6 (w_next w) (dialed a w) w1 \<longrightarrow> answers C k (store n wi c) w1 {n} rs)"
proof (intro conjI allI impI)
  let ?N = "new_nodes (insert n (conn_nodes c)) rs"
  have new: "new_nodes (conn_nodes c) ((n, b) # rs) = n # ?N" using n by (simp add: conn_nodes_iff)
  show "\<exists>ds. w_dials w = None # ds" using ans unfolding answers_def new by auto
  have "\<forall>j < length (n # ?N). welcomes C (cl_opts c) (6 + k) (w_next w + j) w (stream ((n # ?N) ! j) ((n, b) # rs))"
    using ans unfolding answers_def new by blast
  then have wel: "welcomes C (cl_opts c) (6 + k) (w_next w) w (b @ stream n rs)"
    "\<And>j. j < length ?N \<Longrightarrow> welcomes C (cl_opts c) (6 + k) (Suc (w_next w) + j) w (stream (?N ! j) ((n, b) # rs))"
    by (fastforce, fastforce)
  show "welcomes C (cl_opts c) (6 + k) (w_next w) w (b @ stream n rs)" by (rule wel(1))
  fix w1 assume as: "aside 6 (w_next w) (dialed a w) w1"
  have old: "awaits C (MaxFrameBytes (cl_opts c)) (6 + k) wj w (stream m ((n, b) # rs))"
    if "m \<in> fst ` set rs" "map_of (cl_conns c) m = Some wj" for m wj
    using answersD [OF ans _ _ that(2)] that(1) by simp
  have nth: "?N ! j \<noteq> n" if "j < length ?N" for j using that new_nodes_new [of n "insert n (conn_nodes c)" rs] nth_mem by fastforce
  have "answers C (6 + k) (store n wi c) (dialed a w) {n} rs"
    unfolding answers_def conn_nodes_store store_opts
  proof (intro conjI allI impI)
    show "calm (dialed a w)" using ans by (simp add: answers_def)
    show "\<exists>ds. w_dials (dialed a w) = replicate (length ?N) None @ ds" using ans unfolding answers_def new by auto
    show "awaits C (MaxFrameBytes (cl_opts c)) (6 + k) wj (dialed a w) (stream m rs)"
      if "m \<notin> {n}" "m \<in> fst ` set rs" "map_of (cl_conns (store n wi c)) m = Some wj" for m wj
    proof -
      have "awaits C (MaxFrameBytes (cl_opts c)) (6 + k) wj w (stream m ((n, b) # rs))"
        using old [of m wj] that by (simp add: map_of_store_other)
      moreover have "stream m ((n, b) # rs) = stream m rs" using that(1) by auto
      ultimately show ?thesis using delivers_cong [of "dialed a w" wj w] by (simp add: awaits_def supplied_def)
    qed
    show "welcomes C (cl_opts c) (6 + k) (w_next (dialed a w) + j) (dialed a w) (stream (?N ! j) rs)"
      if "j < length ?N" for j
      using wel(2) [OF that] nth [OF that] welcomes_cong [of "dialed a w" "Suc (w_next w) + j" w] by simp
  qed
  moreover have "wi_conn wj \<noteq> w_next w" if "m \<notin> {n}" "map_of (cl_conns (store n wi c)) m = Some wj" for m wj
    using that inv_conn_less [OF inv, of m wj] by (simp add: map_of_store_other)
  ultimately show "answers C k (store n wi c) w1 {n} rs"
    using answers_aside [OF _ as, of C k "store n wi c" "{n}" rs] by simp
qed


section \<open>One operation of a conversation\<close>

text \<open>A client in use, with contexts that last, to which the nodes will answer \<open>rs\<close>.\<close>

definition conversing :: "crypto \<Rightarrow> ctx \<Rightarrow> nat set \<Rightarrow> client \<Rightarrow> world \<Rightarrow> (int \<times> bytes) list \<Rightarrow> bool" where
  "conversing C cx F c w rs \<longleftrightarrow> client_inv F c w \<and> \<not> cl_closed c \<and> in_time cx w \<and> swift c w \<and>
     answers C (7 * length rs) c w {} rs"

lemma conversing_tick: "conversing C cx F c w rs \<Longrightarrow> conversing C cx F c (tick w) rs"
proof -
  assume c: "conversing C cx F c w rs"
  have "client_inv F c (tick w)" using c steady_inv [of F c w "tick w"] by (simp add: conversing_def steady_def tick_evolves)
  moreover have "answers C (7 * length rs) c (tick w) {} rs"
    using c welcomes_cong [of "tick w" _ w] by (simp add: conversing_def answers_def) (simp add: calm_def)
  ultimately show ?thesis using c swift_evolves [OF tick_evolves] by (simp add: conversing_def)
qed

text \<open>The next node is there, or is connected, and answers.\<close>

lemma ensure_answers:
  assumes conv: "conversing C cx F c w ((n, b) # rs)" and node: "0 \<le> n" "n < int (length (cl_peers c))"
  shows "\<exists>wi c1 w1. ensure C cx c n w = (Inr wi, c1, w1) \<and> map_of (cl_conns c1) n = Some wi \<and>
    awaits C (MaxFrameBytes (cl_opts c)) (1 + 7 * length rs) wi w1 (b @ stream n rs) \<and>
    answers C (1 + 7 * length rs) c1 w1 {n} rs"
proof (cases "map_of (cl_conns c) n")
  case (Some wi)
  from conv have ans: "answers C (7 * length ((n, b) # rs)) c w {} ((n, b) # rs)" and cl: "\<not> cl_closed c"
    unfolding conversing_def by blast+
  have "answers C (1 + 7 * length rs) c w {} ((n, b) # rs)" by (rule answers_less [OF ans]) simp
  from answers_connected [OF this Some] cl node Some show ?thesis by (simp add: ensure_def)
next
  case None
  from conv have ans: "answers C (6 + (1 + 7 * length rs)) c w {} ((n, b) # rs)" and cl: "\<not> cl_closed c"
    and inv: "client_inv F c w" and t: "in_time cx w" "swift c w"
    by (simp_all add: conversing_def)
  note new = answers_new [OF ans None inv]
  have calm: "calm w" using ans by (simp add: answers_def)
  from new obtain ds where d: "w_dials w = None # ds" by blast
  from ensure_welcome [OF t inv_options [OF inv] calm cl node None d conjunct1 [OF conjunct2 [OF new]]]
  obtain wi w1 where e: "ensure C cx c n w = (Inr wi, store n wi c, w1)" "aside 6 (w_next w) (dialed (cl_peers c ! nat n) w) w1"
    "awaits C (MaxFrameBytes (cl_opts c)) (1 + 7 * length rs) wi w1 (b @ stream n rs)" by blast
  with new show ?thesis by fastforce
qed

text \<open>A reply reader that takes \<open>b\<close> off the connection and makes \<open>v\<close> of it: a result, or an
  error of the protocol.\<close>

definition understands :: "crypto \<Rightarrow> int \<Rightarrow> 'a reply \<Rightarrow> bytes \<Rightarrow> go_error + 'a \<Rightarrow> bool" where
  "understands C mx reply b v \<longleftrightarrow> (\<forall>e. v = Inl e \<longrightarrow> is_KErr e) \<and>
     (\<forall>k wi w rest. awaits C mx k wi w (b @ rest) \<longrightarrow>
        (\<exists>wi1 w1. reply wi w = (v, wi1, w1) \<and> wire_reads (wi, w) (wi1, w1) \<and> awaits C mx k wi1 w1 rest))"

lemma round_trip_answers:
  assumes conv: "conversing C cx F c w ((n, b) # rs)" and node: "0 \<le> n" "n < int (length (cl_peers c))"
    and ok: "request_ok (cl_opts c) hdr body" and rd: "\<And>c1. reply_reader (reply c1)"
    and und: "\<And>c1. same_client c c1 \<Longrightarrow> understands C (MaxFrameBytes (cl_opts c)) (reply c1) b v"
  shows "\<exists>c1 w1. round_trip C cx n hdr body reply c w = (v, c1, w1) \<and> conversing C cx F c1 w1 rs \<and> same_client c c1"
proof -
  let ?mx = "MaxFrameBytes (cl_opts c)" and ?k = "7 * length rs"
  from conv have inv: "client_inv F c w" and cl: "\<not> cl_closed c" and t: "in_time cx w" "swift c w"
    by (simp_all add: conversing_def)
  from ensure_answers [OF conv node] obtain wi c1 w1 where en: "ensure C cx c n w = (Inr wi, c1, w1)"
    "map_of (cl_conns c1) n = Some wi" "awaits C ?mx (Suc ?k) wi w1 (b @ stream n rs)" "answers C (1 + ?k) c1 w1 {n} rs"
    by auto
  note ep = ensure_props [OF inv cl node en(1)]
  have same: "same_client c c1" and inv1: "client_inv F c1 w1" using ep by auto
  have ev: "evolves w w1" using ep by auto
  have o1: "cl_opts c1 = cl_opts c" using same by (simp add: same_client_def)
  let ?Q = "\<lambda>wi1 w3. aside 1 (wi_conn wi) w1 w3 \<and> awaits C ?mx ?k wi1 w3 (stream n rs)"
  have pl: "is_KErr e" if "v = Inl e" for e using und [OF same] that by (simp add: understands_def)
  have "\<exists>wi1 w3. reply c1 wi w2 = (v, wi1, w3) \<and> ?Q wi1 w3"
    if "awaits C ?mx ?k wi w2 (b @ stream n rs)" "aside 1 (wi_conn wi) w1 w2" for w2
    using und [OF same] that aside_reads [OF that(2)] unfolding understands_def by metis
  from exchange_awaits [OF _ en(3) ok, where c = cx and reply = "reply c1" and Q = ?Q, OF _ this pl] t(1) in_time_evolves [OF ev]
  obtain wi1 w3 where ex: "exchange C cx (cl_opts c1) hdr body (reply c1) wi w1 = (v, True, wi1, w3)"
    "aside 1 (wi_conn wi) w1 w3" "awaits C ?mx ?k wi1 w3 (stream n rs)" unfolding o1 by blast
  let ?c2 = "store n wi1 c1"
  have rt: "round_trip C cx n hdr body reply c w = (v, ?c2, w3)"
    using en(1) ex(1) by (simp add: round_trip_def exchange_on_def)
  have "op_effect C cx F 1 c w (round_trip C cx n hdr body reply c w)" by (rule round_trip_effect [OF inv cl node ok rd])
  with rt have eff: "client_inv F ?c2 w3" "same_client c ?c2" "evolves w w3" by (simp_all add: op_effect_def)
  have "wi_conn wj \<noteq> wi_conn wi" if "m \<notin> {n}" "map_of (cl_conns c1) m = Some wj" for m wj
    using inv_conn_distinct [OF inv1 that(2) en(2)] that(1) by simp
  from answers_aside [OF en(4) ex(2) inv_conn_less [OF inv1 en(2)] this] have "answers C ?k c1 w3 {n} rs" .
  from answers_store [OF this] en(2) ex(3) have "answers C ?k ?c2 w3 {} rs" by (simp add: conn_nodes_iff o1)
  with eff t cl in_time_evolves [OF eff(3)] swift_evolves [OF eff(3) t(2)] rt show ?thesis
    by (auto simp: conversing_def same_client_def swift_def)
qed



section \<open>The replies to a write and to a read\<close>

lemma printable_codec: "codec_Valid cd \<Longrightarrow> printable cd"
  by (auto simp: codec_Valid_def Raw_def JSON_def NIF_def BIF_def printable_def byte_def)

lemma float_alphabet_range: "c \<in> float_alphabet \<Longrightarrow> 32 \<le> byte c \<and> byte c \<le> 126"
  by (auto simp: float_alphabet_def is_digit_def byte_def)

lemma printable_id: "ID_valid i \<Longrightarrow> printable (join_with SP (id_fields i))"
  using set_join_with [of SP "id_fields i"] id_fields_alphabet [of i] float_alphabet_range
  by (fastforce simp: printable_def list_all_iff byte_def)

lemma length_id_fields: "ID_valid i \<Longrightarrow> length (join_with SP (id_fields i)) \<le> 4608"
  using length_ID_String [of i] spaced_ID_String [of i, symmetric] by simp

text \<open>A header line whose reply reader needs nothing else.\<close>

lemma understands_header:
  assumes "header_ok h" "length h \<le> maxHeader"
    and "\<And>wi w wi1 w1. header C mx wi w = (Inr (split_on SP h), wi1, w1) \<Longrightarrow> reply wi w = (v, wi1, w1)"
    and "\<And>e. v = Inl e \<Longrightarrow> is_KErr e"
  shows "understands C mx reply (h @ [LF]) v"
  unfolding understands_def
proof (intro conjI allI impI)
  show "is_KErr e" if "v = Inl e" for e by (rule assms(4) [OF that])
  fix k wi w rest assume "awaits C mx k wi w ((h @ [LF]) @ rest)"
  then have "awaits C mx k wi w (h @ LF # rest)" by simp
  from header_awaits [OF this assms(1,2)] assms(3)
  show "\<exists>wi1 w1. reply wi w = (v, wi1, w1) \<and> wire_reads (wi, w) (wi1, w1) \<and> awaits C mx k wi1 w1 rest" by blast
qed

definition id_reply :: "ID \<Rightarrow> bytes" where
  "id_reply i = ''ID '' @ join_with SP (id_fields i) @ [LF]"

lemma put_reply_understands:
  assumes "ID_valid i"
  shows "understands C mx (put_reply C mx) (id_reply i) (Inr i)"
proof -
  let ?h = "''ID '' @ join_with SP (id_fields i)"
  have h: "header_ok ?h" "length ?h \<le> maxHeader"
    using printable_id [OF assms] length_id_fields [OF assms]
    by (simp_all add: header_ok_printable maxHeader_def) (simp add: printable_def byte_def)
  have "understands C mx (put_reply C mx) (?h @ [LF]) (Inr i)"
    by (rule understands_header [OF h]) (simp_all add: put_reply_def expect_def id_fields_6 parseFields_fields [OF assms] split_spaced_ID [OF assms])
  then show ?thesis by (simp add: id_reply_def)
qed

text \<open>A value, named as being held by node \<open>nd\<close>.\<close>

definition value_line :: "int \<Rightarrow> bytes \<Rightarrow> codec \<Rightarrow> string" where
  "value_line nd data cd = ''VAL '' @ dec (nat nd) @ '' '' @ dec (length data) @ '' '' @ cd"

lemma split_value_line:
  "codec_Valid cd \<Longrightarrow> split_on SP (value_line nd data cd) = [''VAL'', dec (nat nd), dec (length data), cd]"
  using split_on_append [of SP "''VAL''"] split_on_append [OF dec_no_space] split_on_single [of SP cd] codec_Valid_chars [of cd]
  by (simp add: value_line_def)

lemma value_line_ok:
  assumes "codec_Valid cd" "options_ok opts" "int (length data) \<le> MaxFrameBytes opts" "nd < 64"
  shows "header_ok (value_line nd data cd)" "length (value_line nd data cd) \<le> maxHeader"
proof -
  show "header_ok (value_line nd data cd)"
    using printable_codec [OF assms(1)] printable_dec
    by (simp add: header_ok_printable value_line_def) (simp add: printable_def byte_def)
  have "length (dec (nat nd)) \<le> 2" using assms(4) by (intro length_dec_le) auto
  with length_dec_frame [OF assms(2,3)] codec_Valid_chars [OF assms(1)]
  show "length (value_line nd data cd) \<le> maxHeader" by (simp add: value_line_def maxHeader_def)
qed

text \<open>A redirect to the identity \<open>i\<close>, held by another node or, without one, by the same.\<close>

definition forward_line :: "ID \<Rightarrow> int option \<Rightarrow> string" where
  "forward_line i n = ''FWD '' @ join_with SP (id_fields i) @ (case n of None \<Rightarrow> [] | Some k \<Rightarrow> SP # dec (nat k))"

text \<open>The last reply to a read: a value, or that there is none.\<close>

definition outcome_reply :: "client \<Rightarrow> Payload option \<Rightarrow> bytes \<Rightarrow> bool" where
  "outcome_reply c out b \<longleftrightarrow>
     (case out of
        None \<Rightarrow> b = ''MISS'' @ [LF] \<or> b = ''GONE'' @ [LF]
      | Some p \<Rightarrow> codec_Valid (Codec p) \<and> int (length (Data p)) \<le> MaxFrameBytes (cl_opts c) \<and>
          (\<exists>nd. 0 \<le> nd \<and> nd \<le> max_node c \<and> b = value_line nd (Data p) (Codec p) @ LF # Data p))"

lemma outcome_value:
  "codec_Valid cd \<Longrightarrow> int (length data) \<le> MaxFrameBytes (cl_opts c) \<Longrightarrow> 0 \<le> nd \<Longrightarrow> nd \<le> max_node c \<Longrightarrow>
     outcome_reply c (Some \<lparr>Data = data, Codec = cd\<rparr>) (value_line nd data cd @ LF # data)"
  by (auto simp: outcome_reply_def)

definition outcome :: "Payload option \<Rightarrow> read_outcome" where
  "outcome out = (case out of None \<Rightarrow> Absent | Some p \<Rightarrow> Found p)"

lemma value_understands:
  assumes cd: "codec_Valid cd" and opt: "options_ok opts" "int (length data) \<le> MaxFrameBytes opts"
    and nd: "0 \<le> nd" "nd \<le> maxn" "maxn < 64"
  shows "understands C (MaxFrameBytes opts) (read_reply C (MaxFrameBytes opts) maxn final)
    (value_line nd data cd @ LF # data) (Inr (Found \<lparr>Data = data, Codec = cd\<rparr>))"
  unfolding understands_def
proof (intro conjI allI impI)
  show "is_KErr e" if "Inr (Found \<lparr>Data = data, Codec = cd\<rparr>) = Inl e" for e using that by simp
  fix k wi w rest
  assume "awaits C (MaxFrameBytes opts) k wi w ((value_line nd data cd @ LF # data) @ rest)"
  then have aw: "awaits C (MaxFrameBytes opts) k wi w (value_line nd data cd @ LF # data @ rest)" by simp
  have n64: "nd < 64" using nd by simp
  from header_awaits [OF aw value_line_ok [OF cd opt n64]]
  obtain wi1 w1 where h: "header C (MaxFrameBytes opts) wi w = (Inr [''VAL'', dec (nat nd), dec (length data), cd], wi1, w1)"
    "wire_reads (wi, w) (wi1, w1)" "awaits C (MaxFrameBytes opts) k wi1 w1 (data @ rest)" unfolding split_value_line [OF cd] by blast
  from wire_bytes_awaits [OF h(3)] obtain wi2 w2 where b: "wire_bytes C (length data) (MaxFrameBytes opts) wi1 w1 = (Inr data, wi2, w2)"
    "wire_reads (wi1, w1) (wi2, w2)" "awaits C (MaxFrameBytes opts) k wi2 w2 rest" by blast
  have n: "bounded (dec (nat nd)) maxn = Inr nd" "bounded (dec (length data)) (MaxFrameBytes opts) = Inr (int (length data))"
    using nd opt by (auto simp: bounded_Inr_iff options_ok_def maxFrame_def)
  have "read_reply C (MaxFrameBytes opts) maxn final wi w = (Inr (Found \<lparr>Data = data, Codec = cd\<rparr>), wi2, w2)"
    using h(1) b(1) n cd by (simp add: read_reply_def value_reply_def expect_def)
  with b(3) wire_reads_trans [OF h(2) b(2)]
  show "\<exists>wi1 w1. read_reply C (MaxFrameBytes opts) maxn final wi w = (Inr (Found \<lparr>Data = data, Codec = cd\<rparr>), wi1, w1) \<and>
      wire_reads (wi, w) (wi1, w1) \<and> awaits C (MaxFrameBytes opts) k wi1 w1 rest" by blast
qed

lemma absent_understands:
  assumes "tag = ''MISS'' \<or> tag = ''GONE''"
  shows "understands C mx (read_reply C mx maxn final) (tag @ [LF]) (Inr Absent)"
proof -
  have "header_ok tag" "length tag \<le> maxHeader" "split_on SP tag = [tag]"
    using assms by (auto simp: header_ok_def byte_def maxHeader_def)
  with assms show ?thesis
    by (intro understands_header) (auto simp: read_reply_def absent_reply_def expect_def)
qed

lemma max_node_bounds: "client_inv F c w \<Longrightarrow> 0 \<le> max_node c \<and> max_node c < 64"
  by (auto simp: max_node_def client_inv_def client_ok_def Suc_le_eq)

lemma outcome_understands:
  assumes "outcome_reply c out b" "client_inv F c w"
  shows "understands C (MaxFrameBytes (cl_opts c)) (read_reply C (MaxFrameBytes (cl_opts c)) (max_node c) final) b (Inr (outcome out))"
proof (cases out)
  case None
  with assms(1) absent_understands [of "''MISS''"] absent_understands [of "''GONE''"] show ?thesis
    by (auto simp: outcome_reply_def outcome_def)
next
  case (Some p)
  with assms(1) obtain nd where p: "codec_Valid (Codec p)" "int (length (Data p)) \<le> MaxFrameBytes (cl_opts c)"
    "0 \<le> nd" "nd \<le> max_node c" "b = value_line nd (Data p) (Codec p) @ LF # Data p" by (auto simp: outcome_reply_def)
  from value_understands [OF p(1) inv_options [OF assms(2)] p(2-4)] max_node_bounds [OF assms(2)] Some p(5)
  show ?thesis by (cases p) (simp add: outcome_def)
qed

lemma forward_line_ok:
  assumes i: "ID_valid i" and n: "\<And>k. n = Some k \<Longrightarrow> 0 \<le> k \<and> k \<le> maxn" and mx: "maxn < 64"
  shows "header_ok (forward_line i n)" "length (forward_line i n) \<le> maxHeader"
    "split_on SP (forward_line i n) = ''FWD'' # id_fields i @ (case n of None \<Rightarrow> [] | Some k \<Rightarrow> [dec (nat k)])"
proof -
  have d: "length (dec (nat k)) \<le> 2" if "n = Some k" for k using n [OF that] mx by (intro length_dec_le) auto
  show "header_ok (forward_line i n)"
    using printable_id [OF i] printable_dec
    by (auto simp: header_ok_printable forward_line_def split: option.split) (auto simp: printable_def byte_def)
  show "length (forward_line i n) \<le> maxHeader"
    using length_id_fields [OF i] d by (fastforce simp: forward_line_def maxHeader_def split: option.split)
  show "split_on SP (forward_line i n) = ''FWD'' # id_fields i @ (case n of None \<Rightarrow> [] | Some k \<Rightarrow> [dec (nat k)])"
    using split_spaced_ID [OF i] spaced_fields_more [OF i] split_on_single [OF dec_no_space] split_on_append [of SP "''FWD''"]
    by (simp add: forward_line_def split: option.split)
qed

lemma forward_understands:
  assumes i: "ID_valid i" and n: "\<And>k. n = Some k \<Longrightarrow> 0 \<le> k \<and> k \<le> maxn" and mx: "maxn < 64"
  shows "understands C mx (read_reply C mx maxn final) (forward_line i n @ [LF])
    (if final then Inl ErrProtocol else Inr (Forward i n))"
proof (rule understands_header [OF forward_line_ok(1,2) [OF assms]])
  let ?p = "''FWD'' # id_fields i @ (case n of None \<Rightarrow> [] | Some k \<Rightarrow> [dec (nat k)])"
  have bd: "bounded (dec (nat k)) maxn = Inr k" if "n = Some k" for k
    using n [OF that] mx by (simp add: bounded_Inr_iff)
  have "forward_reply final maxn ?p = (if final then Inl ErrProtocol else Inr (Forward i n))"
    using parseFields_fields [OF i] bd id_fields_6 [of i]
    by (auto simp: forward_reply_def nth_append split: option.split)
  moreover have "split_on SP (forward_line i n) = ?p" by (rule forward_line_ok(3) [OF assms])
  moreover fix wi w wi1 w1
  assume "header C mx wi w = (Inr (split_on SP (forward_line i n)), wi1, w1)"
  ultimately show "read_reply C mx maxn final wi w = (if final then Inl ErrProtocol else Inr (Forward i n), wi1, w1)"
    by (simp add: read_reply_def)
qed (auto split: if_split_asm)

text \<open>A refusal.\<close>

definition refusal_line :: "string \<Rightarrow> bool" where
  "refusal_line h \<longleftrightarrow> header_ok h \<and> length h \<le> maxHeader \<and> hd (split_on SP h) = ''ERR''"

lemma put_refusal_understands:
  assumes "refusal_line h"
  shows "understands C mx (put_reply C mx) (h @ [LF]) (Inl ErrServer)"
proof (rule understands_header)
  have "split_on SP h \<noteq> []" by simp
  with assms have "expect (split_on SP h) ''ID'' 7 False = Some ErrServer"
    by (auto simp: refusal_line_def expect_def hd_conv_nth)
  then show "put_reply C mx wi w = (Inl ErrServer, wi1, w1)" if "header C mx wi w = (Inr (split_on SP h), wi1, w1)" for wi w wi1 w1
    using that by (simp add: put_reply_def)
qed (use assms in \<open>auto simp: refusal_line_def\<close>)


section \<open>Writes and reads of a conversation\<close>

lemma conversing_inv: "conversing C cx F c w rs \<Longrightarrow> client_inv F c w"
  by (simp add: conversing_def)

lemma conversing_lock: "conversing C cx F c w rs \<Longrightarrow> lock (Some cx) (Some c) w = (None, tick w)"
  by (simp add: conversing_def lock_def ctx_Err_in_time)

lemma put_locked_round: "round_trip C cx 0 (put_header ring data cd) (ring @ data) (\<lambda>c1. put_reply C (MaxFrameBytes (cl_opts c1))) c w =
    (Inr i, c1, w1) \<Longrightarrow> put_locked C cx ring data cd c w = (Inr i, c1, w1)"
  by (auto simp: round_trip_def put_locked_def split: prod.splits sum.splits)

text \<open>A write takes the identity the server chose.\<close>

lemma PutCodec_conversing:
  assumes conv: "conversing C cx F c w ((0, id_reply i) # rs)" and inp: "put_input_ok c ring data cd" and i: "ID_valid i"
  shows "\<exists>c1 w1. PutCodec C (Some cx) (Some c) ring data cd w = (Inr i, Some c1, w1) \<and>
    conversing C cx F c1 w1 rs \<and> same_client c c1"
proof -
  note inv = conversing_inv [OF conv] and n0 = node0 [OF conversing_inv [OF conv]]
  have und: "understands C (MaxFrameBytes (cl_opts c)) (put_reply C (MaxFrameBytes (cl_opts c1))) (id_reply i) (Inr i)"
    if "same_client c c1" for c1
    using that put_reply_understands [OF i] by (simp add: same_client_def)
  from round_trip_answers [OF conversing_tick [OF conv] conjunct1 [OF n0] conjunct2 [OF n0]
      put_request_ok [OF inv_options [OF inv] inp], where reply = "\<lambda>c1. put_reply C (MaxFrameBytes (cl_opts c1))",
      OF put_rd.reply_reader_axioms und]
  obtain c1 w1 where "put_locked C cx ring data cd c (tick w) = (Inr i, c1, w1)" "conversing C cx F c1 w1 rs" "same_client c c1"
    using put_locked_round by blast
  with conversing_lock [OF conv] inp show ?thesis by (auto simp: PutCodec_def)
qed

text \<open>The replies to a read that is redirected along \<open>hops\<close> and then answered with \<open>b\<close>.\<close>

definition next_node :: "int \<Rightarrow> int option \<Rightarrow> int" where
  "next_node node n = (case n of None \<Rightarrow> node | Some k \<Rightarrow> k)"

fun route :: "int \<Rightarrow> (ID \<times> int option) list \<Rightarrow> bytes \<Rightarrow> (int \<times> bytes) list" where
  "route node [] b = [(node, b)]"
| "route node ((i, n) # hops) b = (node, forward_line i n @ [LF]) # route (next_node node n) hops b"

definition hops_ok :: "client \<Rightarrow> (ID \<times> int option) list \<Rightarrow> bool" where
  "hops_ok c hops \<longleftrightarrow> list_all (\<lambda>(i, n). ID_valid i \<and> (\<forall>k. n = Some k \<longrightarrow> 0 \<le> k \<and> k \<le> max_node c)) hops"

lemma read_once_conversing:
  assumes conv: "conversing C cx F c w ((n, b) # rs)" and node: "0 \<le> n" "n \<le> max_node c"
    and ok: "ID_valid i" "sel_fits (cl_opts c) sel"
    and und: "understands C (MaxFrameBytes (cl_opts c)) (read_reply C (MaxFrameBytes (cl_opts c)) (max_node c) final) b out"
  shows "\<exists>c1 w1. read_once C cx sel final i n c w = (out, c1, w1) \<and> conversing C cx F c1 w1 rs \<and> same_client c c1"
proof -
  have n: "n < int (length (cl_peers c))" using node(2) by (simp add: max_node_def)
  have "understands C (MaxFrameBytes (cl_opts c)) (read_reply C (MaxFrameBytes (cl_opts c1)) (max_node c1) final) b out"
    if "same_client c c1" for c1
    using that und by (simp add: same_client_def max_node_def)
  from round_trip_answers [OF conv node(1) n read_request_ok [OF inv_options [OF conversing_inv [OF conv]] ok],
      where reply = "\<lambda>c1. read_reply C (MaxFrameBytes (cl_opts c1)) (max_node c1) final", OF read_rd.reply_reader_axioms this]
  show ?thesis unfolding read_once_round by blast
qed

text \<open>Redirects are followed to the end, as long as there are not too many.\<close>

lemma read_hops_conversing:
  "conversing C cx F c w (route node hops b @ rs) \<Longrightarrow> 0 \<le> node \<Longrightarrow> node \<le> max_node c \<Longrightarrow> ID_valid i \<Longrightarrow>
     sel_fits (cl_opts c) sel \<Longrightarrow> hops_ok c hops \<Longrightarrow> outcome_reply c out b \<Longrightarrow> h + int (length hops) \<le> mr \<Longrightarrow>
     \<exists>c1 w1. read_hops C cx sel mr h i node c w = (Inr out, c1, w1) \<and> conversing C cx F c1 w1 rs \<and> same_client c c1"
proof (induction hops arbitrary: h i node c w)
  case Nil
  then have conv: "conversing C cx F c w ((node, b) # rs)" by simp
  from read_once_conversing [OF conv Nil(2-5) outcome_understands [OF Nil(7) conversing_inv [OF conv]], of "h = mr"]
  obtain c1 w1 where "read_once C cx sel (h = mr) i node c w = (Inr (outcome out), c1, w1)" "conversing C cx F c1 w1 rs" "same_client c c1"
    by blast
  with Nil(8) show ?case by (simp add: read_hops.simps [of C cx sel mr h] outcome_def split: option.split)
next
  case (Cons hop hops)
  obtain j n where hop: "hop = (j, n)" by fastforce
  from Cons.prems(1) hop have conv: "conversing C cx F c w ((node, forward_line j n @ [LF]) # route (next_node node n) hops b @ rs)" by simp
  from Cons.prems(6) hop have j: "ID_valid j" "\<And>k. n = Some k \<Longrightarrow> 0 \<le> k \<and> k \<le> max_node c" "hops_ok c hops"
    by (auto simp: hops_ok_def)
  from Cons.prems(8) have notfinal: "h \<noteq> mr" "\<not> mr < h" "h + 1 + int (length hops) \<le> mr" by auto
  have und: "understands C (MaxFrameBytes (cl_opts c)) (read_reply C (MaxFrameBytes (cl_opts c)) (max_node c) False)
      (forward_line j n @ [LF]) (Inr (Forward j n))"
    using forward_understands [OF j(1,2) conjunct2 [OF max_node_bounds [OF conversing_inv [OF conv]]], where final = False] by simp
  from read_once_conversing [OF conv Cons.prems(2-5) und] obtain c1 w1 where rd: "read_once C cx sel False i node c w = (Inr (Forward j n), c1, w1)"
    "conversing C cx F c1 w1 (route (next_node node n) hops b @ rs)" "same_client c c1" by blast
  have same: "max_node c1 = max_node c" "cl_opts c1 = cl_opts c" using rd(3) by (simp_all add: same_client_def max_node_def)
  have node1: "0 \<le> next_node node n" "next_node node n \<le> max_node c1"
    using Cons.prems(2,3) j(2) by (auto simp: next_node_def same split: option.split)
  have "outcome_reply c1 out b" "hops_ok c1 hops" "sel_fits (cl_opts c1) sel"
    using Cons.prems(5,7) j(3) unfolding outcome_reply_def hops_ok_def same by simp_all
  from Cons.IH [OF rd(2) node1 j(1) this(3,2,1) notfinal(3)] obtain c2 w2 where
    "read_hops C cx sel mr (h + 1) j (next_node node n) c1 w1 = (Inr out, c2, w2)" "conversing C cx F c2 w2 rs" "same_client c1 c2" by blast
  with rd notfinal same_client_trans [OF rd(3)] show ?case
    by (simp add: read_hops.simps [of C cx sel mr h] next_node_def)
qed

lemma readOperation_conversing:
  assumes "conversing C cx F c w rs" "f cx c (tick w) = (Inr v, c1, w1)"
  shows "readOperation (Some cx) (Some c) f w = (Inr v, Some c1, w1)"
  using assms conversing_lock [OF assms(1)] by (simp add: readOperation_def numeral_2_eq_2)

lemma read_record_conversing:
  assumes conv: "conversing C cx F c w (route 0 hops b @ rs)" and ok: "read_input_ok c i sel"
    and h: "hops_ok c hops" "int (length hops) \<le> MaxRedirects (cl_opts c)" and out: "outcome_reply c out b"
  shows "\<exists>c1 w1. read_record C (Some cx) (Some c) i sel w = (Inr out, Some c1, w1) \<and> conversing C cx F c1 w1 rs \<and> same_client c c1"
proof -
  note mn = max_node_bounds [OF conversing_inv [OF conv]]
  have ok1: "ID_valid i" "sel_fits (cl_opts c) sel" using ok by (simp_all add: read_input_ok_iff)
  from read_hops_conversing [OF conversing_tick [OF conv] order_refl conjunct1 [OF mn] ok1 h(1) out, of 0 "MaxRedirects (cl_opts c)"] h(2)
  obtain c1 w1 where "read_op C i sel cx c (tick w) = (Inr out, c1, w1)" "conversing C cx F c1 w1 rs" "same_client c c1"
    by (auto simp: read_op_def)
  with readOperation_conversing [OF conv, of "read_op C i sel"] ok show ?thesis by (simp add: read_record_def)
qed



section \<open>Refusals and endless redirects\<close>

text \<open>A refused write is reported as refused, not as a write of unknown outcome.\<close>

lemma PutCodec_refused:
  assumes conv: "conversing C cx F c w ((0, h @ [LF]) # rs)" and inp: "put_input_ok c ring data cd" and h: "refusal_line h"
  shows "\<exists>c1 w1. PutCodec C (Some cx) (Some c) ring data cd w = (Inl ErrServer, Some c1, w1) \<and> cl_conns c1 = []"
proof -
  note inv = conversing_inv [OF conv] and n0 = node0 [OF conversing_inv [OF conv]]
  have und: "understands C (MaxFrameBytes (cl_opts c)) (put_reply C (MaxFrameBytes (cl_opts c1))) (h @ [LF]) (Inl ErrServer)"
    if "same_client c c1" for c1
    using that put_refusal_understands [OF h] by (simp add: same_client_def)
  from ensure_answers [OF conversing_tick [OF conv] conjunct1 [OF n0] conjunct2 [OF n0]] obtain wi c1 w1 where
    en: "ensure C cx c 0 (tick w) = (Inr wi, c1, w1)" by blast
  from round_trip_answers [OF conversing_tick [OF conv] conjunct1 [OF n0] conjunct2 [OF n0]
      put_request_ok [OF inv_options [OF inv] inp], where reply = "\<lambda>c1. put_reply C (MaxFrameBytes (cl_opts c1))",
      OF put_rd.reply_reader_axioms und] en
  obtain att c2 w2 where ex: "exchange_on C cx c1 0 (put_header ring data cd) (ring @ data)
      (put_reply C (MaxFrameBytes (cl_opts c1))) wi w1 = (Inl ErrServer, att, c2, w2)"
    by (auto simp: round_trip_def split: prod.splits)
  obtain c3 w3 where dr: "drop_conns c2 w2 = (c3, w3)" by fastforce
  have "put_locked C cx ring data cd c (tick w) = (Inl ErrServer, c3, w3)"
    using en ex dr by (simp add: put_locked_def put_error_def errors_Is_refl)
  moreover have "cl_conns c3 = []" using dr by (auto simp: drop_conns_def)
  ultimately show ?thesis using conversing_lock [OF conv] inp by (auto simp: PutCodec_def)
qed

text \<open>A read that is redirected more often than allowed ends with a protocol error.\<close>

lemma read_hops_endless:
  "conversing C cx F c w (route node hops b @ rs) \<Longrightarrow> 0 \<le> node \<Longrightarrow> node \<le> max_node c \<Longrightarrow> ID_valid i \<Longrightarrow>
     sel_fits (cl_opts c) sel \<Longrightarrow> hops_ok c hops \<Longrightarrow> h \<le> mr \<Longrightarrow> mr < h + int (length hops) \<Longrightarrow>
     \<exists>c1 w1 rs1. read_hops C cx sel mr h i node c w = (Inl ErrProtocol, c1, w1) \<and> conversing C cx F c1 w1 rs1 \<and> same_client c c1"
proof (induction hops arbitrary: h i node c w)
  case (Cons hop hops)
  obtain j n where hop: "hop = (j, n)" by fastforce
  let ?rs = "route (next_node node n) hops b @ rs"
  from Cons.prems(1) hop have conv: "conversing C cx F c w ((node, forward_line j n @ [LF]) # ?rs)" by simp
  from Cons.prems(6) hop have j: "ID_valid j" "\<And>k. n = Some k \<Longrightarrow> 0 \<le> k \<and> k \<le> max_node c" "hops_ok c hops"
    by (auto simp: hops_ok_def)
  from read_once_conversing [OF conv Cons.prems(2-5) forward_understands [OF j(1,2)], of "h = mr"]
    max_node_bounds [OF conversing_inv [OF conv]]
  obtain c1 w1 where rd: "read_once C cx sel (h = mr) i node c w = (if h = mr then Inl ErrProtocol else Inr (Forward j n), c1, w1)"
    "conversing C cx F c1 w1 ?rs" "same_client c c1" by blast
  show ?case
  proof (cases "h = mr")
    case True
    with rd show ?thesis by (auto simp: read_hops.simps [of C cx sel mr mr])
  next
    case False
    have same: "max_node c1 = max_node c" "cl_opts c1 = cl_opts c" using rd(3) by (simp_all add: same_client_def max_node_def)
    have node1: "0 \<le> next_node node n" "next_node node n \<le> max_node c1"
      using Cons.prems(2,3) j(2) by (auto simp: next_node_def same split: option.split)
    have "hops_ok c1 hops" "sel_fits (cl_opts c1) sel"
      using Cons.prems(5) j(3) unfolding hops_ok_def same by simp_all
    from Cons.IH [OF rd(2) node1 j(1) this(2,1), of "h + 1"] Cons.prems(7,8) False obtain c2 w2 rs1 where
      "read_hops C cx sel mr (h + 1) j (next_node node n) c1 w1 = (Inl ErrProtocol, c2, w2)" "conversing C cx F c2 w2 rs1" "same_client c1 c2"
      by auto
    with rd False Cons.prems(7) same_client_trans [OF rd(3)] show ?thesis
      by (auto simp: read_hops.simps [of C cx sel mr h] next_node_def)
  qed
qed simp

lemma read_record_endless:
  assumes conv: "conversing C cx F c w (route 0 hops b @ rs)" and ok: "read_input_ok c i sel"
    and h: "hops_ok c hops" "MaxRedirects (cl_opts c) < int (length hops)"
  shows "\<exists>c1 w1. read_record C (Some cx) (Some c) i sel w = (Inl ErrProtocol, Some c1, w1) \<and> cl_conns c1 = []"
proof -
  let ?mr = "MaxRedirects (cl_opts c)"
  note mn = max_node_bounds [OF conversing_inv [OF conv]]
  have ok1: "ID_valid i" "sel_fits (cl_opts c) sel" using ok by (simp_all add: read_input_ok_iff)
  have mr: "0 \<le> ?mr" using inv_options [OF conversing_inv [OF conv]] by (simp add: options_ok_def)
  from read_hops_endless [OF conversing_tick [OF conv] order_refl conjunct1 [OF mn] ok1 h(1) mr] h(2)
  obtain c1 w1 rs1 where rd: "read_op C i sel cx c (tick w) = (Inl ErrProtocol, c1, w1)" "conversing C cx F c1 w1 rs1"
    by (auto simp: read_op_def)
  obtain w2 where dr: "drop_conns c1 w1 = (c1\<lparr>cl_conns := []\<rparr>, w2)" by (simp add: drop_conns_def)
  have "in_time cx w2" using rd(2) conjunct2 [OF drop_conns_world [OF dr]] by (simp add: conversing_def in_time_def)
  moreover have "\<not> errors_Is ErrProtocol ErrConnection \<and> \<not> errors_Is ErrProtocol ErrTimeout" by code_simp
  then have "\<not> retryable (c1\<lparr>cl_conns := []\<rparr>) ErrProtocol" by (simp add: retryable_def)
  ultimately have "attempts cx (read_op C i sel cx) 2 c (tick w) = (Inl ErrProtocol, c1\<lparr>cl_conns := []\<rparr>, tick w2)"
    using rd(1) dr by (simp add: numeral_2_eq_2 ctx_Err_in_time)
  with conversing_lock [OF conv] ok show ?thesis by (simp add: read_record_def readOperation_def)
qed



section \<open>Dial opens a conversation\<close>

definition new_client :: "string list \<Rightarrow> Options \<Rightarrow> tls_config option \<Rightarrow> client" where
  "new_client peers opts tls = \<lparr>cl_peers = peers, cl_opts = opts, cl_tls = tls, cl_conns = [], cl_closed = False\<rparr>"

lemma answers_fill:
  "answers C k c w {n} rs \<Longrightarrow> map_of (cl_conns c) n = Some wi \<Longrightarrow> awaits C (MaxFrameBytes (cl_opts c)) k wi w (stream n rs) \<Longrightarrow>
     answers C k c w {} rs"
  unfolding answers_def by (metis option.inject singletonD)

lemma Dial_conversing:
  assumes w: "world_ok w" and n: "normalize load_ca peers opts = Inr (o1, t)"
    and time: "in_time cx w" "horizon w < w_clock w + ConnectTimeout o1"
    and ans: "answers C (7 * Suc (length rs)) (new_client peers o1 t) w {} ((0, []) # rs)"
  shows "\<exists>c w1. Dial C load_ca (Some cx) peers opts w = (Inr c, w1) \<and> conversing C cx (open_conns w) c w1 rs \<and>
    cl_peers c = peers \<and> cl_opts c = o1"
proof -
  let ?c = "new_client peers o1 t"
  have inv: "client_inv (open_conns w) ?c w" using fresh_inv [OF w n] by (simp add: new_client_def)
  have cl: "\<not> cl_closed ?c" by (simp add: new_client_def)
  have conv: "conversing C cx (open_conns w) ?c w ((0, []) # rs)"
    using inv time ans by (simp add: conversing_def swift_def new_client_def)
  note n0 = node0 [OF inv]
  from ensure_answers [OF conv conjunct1 [OF n0] conjunct2 [OF n0]] obtain wi c1 w1 where
    en: "ensure C cx ?c 0 w = (Inr wi, c1, w1)" "map_of (cl_conns c1) 0 = Some wi"
      "awaits C (MaxFrameBytes (cl_opts ?c)) (1 + 7 * length rs) wi w1 (stream 0 rs)" "answers C (1 + 7 * length rs) c1 w1 {0} rs"
    by auto
  note ep = ensure_props [OF inv cl conjunct1 [OF n0] conjunct2 [OF n0] en(1)]
  have same: "same_client ?c c1" "client_inv (open_conns w) c1 w1" "evolves w w1" using ep by auto
  have "answers C (7 * length rs) c1 w1 {} rs"
    using answers_less [OF answers_fill [OF en(4,2)], of "7 * length rs"] en(3) same(1) by (simp add: same_client_def)
  then have "conversing C cx (open_conns w) c1 w1 rs"
    using same time in_time_evolves [OF same(3)] swift_evolves [OF same(3), of ?c]
    by (simp add: conversing_def same_client_def swift_def new_client_def)
  moreover have "Dial C load_ca (Some cx) peers opts w = (Inr c1, w1)"
    using n en(1) by (simp add: Dial_def new_client_def)
  ultimately show ?thesis using same(1) by (auto simp: same_client_def new_client_def)
qed

end
