(* ===== verification/Samples.thy ===== *)
theory Samples
  imports Conversation "HOL-Library.Code_Target_Numeral"
begin

text \<open>
  Concrete inputs at which the properties are applied: options, a connected client, worlds
  with a scripted server, and a reference cipher.
\<close>

definition sample_opts :: Options where
  "sample_opts = zero_Options\<lparr>ConnectTimeout := 5 * Second, ReadTimeout := 5 * Second,
     WriteTimeout := 5 * Second, MaxFrameBytes := maxFrame, MaxRedirects := 8\<rparr>"

definition sample_id :: ID where
  "sample_id = \<lparr>Parent = 18446744073709551615, Epoch = 7, Seq = 0,
     TWrite = 0x3FF4000000000000, Period = 0x3FE0000000000000, Head = 0\<rparr>"

definition sample_wire :: wire where
  "sample_wire = \<lparr>wi_conn = 0, wi_key = None, wi_plain = []\<rparr>"

definition sample_client :: client where
  "sample_client = \<lparr>cl_peers = [''localhost:7301''], cl_opts = sample_opts, cl_tls = None,
     cl_conns = [(0, sample_wire)], cl_closed = False\<rparr>"

definition fresh_client :: client where
  "fresh_client = sample_client\<lparr>cl_conns := []\<rparr>"

definition closed_client :: client where
  "closed_client = fresh_client\<lparr>cl_closed := True\<rparr>"

text \<open>A world with one open socket on which the bytes \<open>bs\<close> arrive, and one in which a dial
  succeeds and its socket receives them.\<close>

definition world_with :: "bytes \<Rightarrow> world" where
  "world_with bs = \<lparr>w_clock = 0, w_ticks = [], w_dials = [], w_tls = [], w_arms = [], w_writes = [],
     w_inbox = (\<lambda>_. map Inr bs), w_rands = [], w_next = 1, w_dialed = [], w_verified = [],
     w_sent = [], w_armed = [], w_closed = []\<rparr>"

definition world_dialing :: "bytes \<Rightarrow> world" where
  "world_dialing bs = (world_with bs)\<lparr>w_next := 0, w_dials := [None]\<rparr>"

text \<open>A cipher for the reference: the message with a tag of 16 zero bytes.\<close>

definition sample_crypto :: crypto where
  "sample_crypto = \<lparr>blake256 = fit 32, seal = (\<lambda>k n m. replicate 16 NUL @ m),
     unseal = (\<lambda>k n c. Some (drop 16 c))\<rparr>"

lemma sample_crypto_laws: "seal_overhead sample_crypto" "opens sample_crypto k"
  by (simp_all add: seal_overhead_def opens_def sample_crypto_def)

lemma sample_opts_ok: "options_ok sample_opts"
  by (simp add: options_ok_def sample_opts_def zero_Options_def no_credentials_def Second_def Hour_def
      maxFrame_def field_ok_def)

lemma sample_id_valid: "ID_valid sample_id"
  by code_simp

lemma sample_client_ok: "client_ok sample_client" "client_ok fresh_client" "client_ok closed_client"
  using sample_opts_ok
  by (simp_all add: client_ok_def sample_client_def fresh_client_def closed_client_def conn_ids_def)

lemma sample_client_inv:
  "client_inv {} sample_client (world_with bs)" "client_inv {0} fresh_client (world_with bs)"
  "client_inv {0} closed_client (world_with bs)" "client_inv {} fresh_client (world_dialing bs)"
  using sample_client_ok
  by (auto simp: client_inv_def owns_def open_conns_def conn_ids_def sample_client_def fresh_client_def
      closed_client_def sample_wire_def world_with_def world_dialing_def)

lemma sample_client_simps [simp]:
  "\<not> cl_closed sample_client" "map_of (cl_conns sample_client) 0 = Some sample_wire"
  "\<not> cl_closed fresh_client" "map_of (cl_conns fresh_client) n = None" "cl_closed closed_client"
  "cl_opts sample_client = sample_opts" "cl_opts fresh_client = sample_opts"
  by (simp_all add: sample_client_def fresh_client_def closed_client_def)

text \<open>The connection that is there receives \<open>bs\<close>; a new one is welcomed first.\<close>

lemma arrived_map [simp]: "arrived (map Inr bs) = bs"
  using arrived_append [of bs "[]"] by simp

lemma new_nodes_known: "fst ` set rs \<subseteq> K \<Longrightarrow> new_nodes K rs = []"
  by (induction K rs rule: new_nodes.induct) auto

lemma sample_timely: "in_time background w" "swift sample_client (world_with bs)" "swift fresh_client (world_dialing bs)"
  by (simp_all add: in_time_never background_def swift_def horizon_def world_with_def world_dialing_def sample_client_def
      fresh_client_def sample_opts_def Second_def)

lemma sample_conversing:
  assumes "fst ` set rs \<subseteq> {0}"
  shows "conversing sample_crypto background {} sample_client (world_with (stream 0 rs)) rs"
proof -
  have "conn_nodes sample_client = {0}" by (simp add: conn_nodes_def sample_client_def)
  with assms have nn: "new_nodes (conn_nodes sample_client) rs = []" by (simp add: new_nodes_known)
  have "awaits sample_crypto mx k sample_wire (world_with (stream 0 rs)) (stream 0 rs)" for mx k
    by (simp add: awaits_def delivers_def sample_wire_def calm_def world_with_def)
  then have "answers sample_crypto (7 * length rs) sample_client (world_with (stream 0 rs)) {} rs"
    using assms unfolding answers_def nn by (auto simp: calm_def world_with_def sample_client_def split: if_splits)
  then show ?thesis using sample_client_inv(1) sample_timely by (simp add: conversing_def)
qed

lemma sample_plain: "\<not> secret_auth sample_opts"
  by (simp add: secret_auth_def sample_opts_def zero_Options_def no_credentials_def)

lemma fresh_answers:
  "answers sample_crypto k (c\<lparr>cl_opts := sample_opts, cl_conns := []\<rparr>) (world_dialing (greeting sample_opts @ b @ stream 0 rs)) {} ((0, b) # rs)"
  if "fst ` set rs \<subseteq> {0}"
proof -
  have "new_nodes {} ((0, b) # rs) = [0]" using that by (simp add: new_nodes_known)
  then show ?thesis
    by (simp add: answers_def conn_nodes_def welcomes_def sample_plain world_dialing_def world_with_def calm_def)
qed

lemma background_never [simp]: "ctx_done background = None"
  by (simp add: background_def)

lemma sample_put_ok: "put_input_ok sample_client ''r'' ''hello'' Raw" "put_input_ok fresh_client ''r'' ''hello'' Raw"
  by (simp_all add: put_input_ok_def sample_opts_def maxFrame_def codec_Valid_def)

lemma sample_read_ok: "read_input_ok sample_client sample_id None"
  using sample_id_valid by (simp add: read_input_ok_def)

end
