(* ===== verification/Embedded.thy ===== *)
theory Embedded
  imports Client
begin

text \<open>
  \<open>embedded/db.go\<close>: the binding of the C library.  The library is a parameter, the record
  \<open>abi\<close> of the functions the binding calls, over a state the library keeps; what Go
  converts, checks and decides around those calls is modelled here.  Each operation is a
  function the worker thread of the handle runs; the theory \<open>Worker\<close> treats the threads.
\<close>


section \<open>The C interface\<close>

record kouten_id =
  k_parent :: "64 word"
  k_epoch :: "32 word"
  k_seq :: "32 word"
  k_t_write :: f64

type_synonym f32 = "32 word"

text \<open>An argument pointer is null or points to the elements of a slice; it is passed with
  its length.\<close>

type_synonym 'a ptr = "'a option"

text \<open>A returned buffer is a pointer with the bytes it points to; a null pointer is
  \<open>None\<close>.  \<open>'s\<close> is the state of the library.\<close>

type_synonym buf = "(nat \<times> bytes) option"

record ring_args =
  ra_ring :: string
  ra_filter :: string
  ra_selection :: string
  ra_limit :: int
  ra_cursor :: string
  ra_pagination :: int
  ra_page :: int
  ra_page_limit :: int
  ra_sort :: string
  ra_desc :: int

record 's abi =
  abi_init :: "'s \<Rightarrow> 's"
  abi_version :: "'s \<Rightarrow> int"
  abi_open :: "int \<Rightarrow> 's \<Rightarrow> nat option \<times> 's"
  abi_open_dir :: "int \<Rightarrow> string \<Rightarrow> int \<Rightarrow> int \<Rightarrow> 's \<Rightarrow> nat option \<times> 's"
  abi_close :: "nat \<Rightarrow> 's \<Rightarrow> 's"
  abi_put :: "nat \<Rightarrow> string \<Rightarrow> bytes ptr \<Rightarrow> nat \<Rightarrow> int \<Rightarrow> f32 list ptr \<Rightarrow> nat \<Rightarrow> 's \<Rightarrow> (int \<times> kouten_id) \<times> 's"
  abi_exists :: "nat \<Rightarrow> kouten_id \<Rightarrow> 's \<Rightarrow> int \<times> 's"
  abi_get :: "nat \<Rightarrow> kouten_id \<Rightarrow> 's \<Rightarrow> (buf \<times> int) \<times> 's"
  abi_query :: "nat \<Rightarrow> kouten_id \<Rightarrow> string \<Rightarrow> 's \<Rightarrow> buf \<times> 's"
  abi_update :: "nat \<Rightarrow> kouten_id \<Rightarrow> bytes ptr \<Rightarrow> nat \<Rightarrow> int \<Rightarrow> 's \<Rightarrow> int \<times> 's"
  abi_remove :: "nat \<Rightarrow> kouten_id \<Rightarrow> 's \<Rightarrow> int \<times> 's"
  abi_read_ring :: "nat \<Rightarrow> ring_args \<Rightarrow> 's \<Rightarrow> buf \<times> 's"

definition KOUTEN_OK :: int where "KOUTEN_OK = 0"
definition ABIVersion :: int where "ABIVersion = 2"
definition maxBytes :: nat where "maxBytes = 64 * 1024 * 1024"
definition MaxInt32 :: int where "MaxInt32 = 2147483647"

text \<open>The process: the library's state, whether \<open>runtimeOnce\<close> has run, and the buffers
  handed to Go and not yet freed.\<close>

record 's process =
  lib :: 's
  inited :: bool
  held :: "nat list"


section \<open>Errors, identities, checks\<close>

definition ErrABI :: go_error where
  "ErrABI = PlainErr ''koutendb: C ABI operation failed''"
definition ErrNotFound :: go_error where
  "ErrNotFound = PlainErr ''koutendb: record not found''"

record eid =
  e_Parent :: "64 word"
  e_Epoch :: "32 word"
  e_Seq :: "32 word"
  e_TWrite :: f64

definition zero_eid :: eid where
  "zero_eid = \<lparr>e_Parent = 0, e_Epoch = 0, e_Seq = 0, e_TWrite = 0\<rparr>"

definition eid_valid :: "eid \<Rightarrow> bool" where
  "eid_valid i \<longleftrightarrow> \<not> isNaN (e_TWrite i) \<and> \<not> isInf (e_TWrite i)"

definition toC :: "eid \<Rightarrow> kouten_id" where
  "toC i = \<lparr>k_parent = e_Parent i, k_epoch = e_Epoch i, k_seq = e_Seq i, k_t_write = e_TWrite i\<rparr>"

definition fromC :: "kouten_id \<Rightarrow> eid" where
  "fromC k = \<lparr>e_Parent = k_parent k, e_Epoch = k_epoch k, e_Seq = k_seq k, e_TWrite = k_t_write k\<rparr>"

text \<open>What may cross as a C string.\<close>

definition c_text :: "string \<Rightarrow> bool" where
  "c_text s \<longleftrightarrow> length s < 1024 * 1024 \<and> NUL \<notin> set s"

definition bytesPtr :: "bytes \<Rightarrow> bytes ptr" where
  "bytesPtr b = (if length b = 0 then None else Some b)"

definition floatPtr :: "f32 list \<Rightarrow> f32 list ptr" where
  "floatPtr v = (if length v = 0 then None else Some v)"

definition codec_code :: "codec \<Rightarrow> int option" where
  "codec_code c =
     (if c = Raw then Some 0 else if c = JSON then Some 1
      else if c = NIF then Some 2 else if c = BIF then Some 3 else None)"

definition codec_table :: "codec list" where
  "codec_table = [Raw, JSON, NIF, BIF]"

text \<open>A \<open>float32\<close> that converts to a NaN or an infinite \<open>float64\<close>: all exponent bits set.\<close>

definition f32_finite :: "f32 \<Rightarrow> bool" where
  "f32_finite v \<longleftrightarrow> unat v div 2 ^ 23 mod 2 ^ 8 \<noteq> 255"

definition flag :: "bool \<Rightarrow> int" where
  "flag b = (if b then 1 else 0)"

text \<open>\<open>lastError\<close> copies the library's text and drops it.\<close>

definition lastError :: go_error where
  "lastError = ErrABI"


section \<open>Buffers\<close>

definition receive :: "buf \<Rightarrow> 's process \<Rightarrow> 's process" where
  "receive b p = (case b of None \<Rightarrow> p | Some (ptr, _) \<Rightarrow> p\<lparr>held := ptr # held p\<rparr>)"

definition kouten_free :: "nat \<Rightarrow> 's process \<Rightarrow> 's process" where
  "kouten_free ptr p = p\<lparr>held := remove1 ptr (held p)\<rparr>"

text \<open>\<open>buffer\<close>: a buffer is freed on every way out, and copied when it is not too long.\<close>

definition take_buffer :: "buf \<Rightarrow> 's process \<Rightarrow> (go_error + bytes) \<times> 's process" where
  "take_buffer b p =
     (case b of None \<Rightarrow> (Inl lastError, p)
      | Some (ptr, bs) \<Rightarrow>
          (if maxBytes < length bs then Inl ErrABI else Inr bs, kouten_free ptr p))"


section \<open>The database handle\<close>

text \<open>A nil or zero \<open>*DB\<close> is \<open>None\<close>.\<close>

record DB =
  db_raw :: nat
  db_closed :: bool

type_synonym ('s, 'a) job = "nat \<Rightarrow> 's process \<Rightarrow> (go_error + 'a) \<times> 's process"

definition call :: "DB option \<Rightarrow> ('s, 'a) job \<Rightarrow> 's process \<Rightarrow> (go_error + 'a) \<times> 's process" where
  "call h fn p =
     (case h of None \<Rightarrow> (Inl ErrClosed, p)
      | Some db \<Rightarrow> if db_closed db then (Inl ErrClosed, p) else fn (db_raw db) p)"

definition DB_Close :: "'s abi \<Rightarrow> DB option \<Rightarrow> 's process \<Rightarrow> DB option \<times> 's process" where
  "DB_Close A h p =
     (case h of None \<Rightarrow> (None, p)
      | Some db \<Rightarrow> if db_closed db then (h, p)
          else (Some (db\<lparr>db_closed := True\<rparr>), p\<lparr>lib := abi_close A (db_raw db) (lib p)\<rparr>))"

record OpenOptions =
  Nodes :: int
  Directory :: string
  StrongDurability :: bool
  DiskBacked :: bool

definition open_input_ok :: "OpenOptions \<Rightarrow> bool" where
  "open_input_ok ops \<longleftrightarrow>
     \<not> (Nodes ops < 1 \<or> 65535 < Nodes ops \<or> \<not> c_text (Directory ops) \<or>
        (Directory ops = [] \<and> (StrongDurability ops \<or> DiskBacked ops)))"

definition init_once :: "'s abi \<Rightarrow> 's process \<Rightarrow> 's process" where
  "init_once A p = (if inited p then p else p\<lparr>inited := True, lib := abi_init A (lib p)\<rparr>)"

text \<open>What the worker thread does before it serves jobs.\<close>

definition worker_start :: "'s abi \<Rightarrow> OpenOptions \<Rightarrow> 's process \<Rightarrow> (go_error + nat) \<times> 's process" where
  "worker_start A ops p0 =
     (let p = init_once A p0 in
      if abi_version A (lib p) \<noteq> ABIVersion then (Inl ErrVersionMismatch, p)
      else let (raw, s) =
             (if Directory ops = [] then abi_open A (Nodes ops) (lib p)
              else abi_open_dir A (Nodes ops) (Directory ops) (flag (StrongDurability ops))
                     (flag (DiskBacked ops)) (lib p))
           in (case raw of None \<Rightarrow> Inl lastError | Some h \<Rightarrow> Inr h, p\<lparr>lib := s\<rparr>))"

definition OpenWithOptions :: "'s abi \<Rightarrow> OpenOptions \<Rightarrow> 's process \<Rightarrow> (go_error + DB) \<times> 's process" where
  "OpenWithOptions A ops p =
     (if \<not> open_input_ok ops then (Inl ErrInvalidInput, p)
      else case worker_start A ops p of
          (Inl e, p1) \<Rightarrow> (Inl e, p1)
        | (Inr raw, p1) \<Rightarrow> (Inr \<lparr>db_raw = raw, db_closed = False\<rparr>, p1))"

definition zero_OpenOptions :: OpenOptions where
  "zero_OpenOptions = \<lparr>Nodes = 0, Directory = [], StrongDurability = False, DiskBacked = False\<rparr>"

definition Open :: "'s abi \<Rightarrow> int \<Rightarrow> 's process \<Rightarrow> (go_error + DB) \<times> 's process" where
  "Open A nodes p = OpenWithOptions A (zero_OpenOptions\<lparr>Nodes := nodes\<rparr>) p"

definition OpenDir :: "'s abi \<Rightarrow> int \<Rightarrow> string \<Rightarrow> 's process \<Rightarrow> (go_error + DB) \<times> 's process" where
  "OpenDir A nodes dir p =
     (if dir = [] then (Inl ErrInvalidInput, p)
      else OpenWithOptions A (zero_OpenOptions\<lparr>Nodes := nodes, Directory := dir\<rparr>) p)"


section \<open>Operations\<close>

definition put_job :: "'s abi \<Rightarrow> string \<Rightarrow> bytes \<Rightarrow> int \<Rightarrow> f32 list \<Rightarrow> ('s, eid) job" where
  "put_job A ring data c vec raw p =
     (let ((rc, out), s) = abi_put A raw ring (bytesPtr data) (length data) c (floatPtr vec) (length vec) (lib p)
      in (if rc \<noteq> KOUTEN_OK then Inl lastError else Inr (fromC out), p\<lparr>lib := s\<rparr>))"

definition PutVec ::
  "'s abi \<Rightarrow> DB option \<Rightarrow> string \<Rightarrow> bytes \<Rightarrow> codec \<Rightarrow> f32 list \<Rightarrow> 's process \<Rightarrow> (go_error + eid) \<times> 's process" where
  "PutVec A h ring data enc vec p =
     (case codec_code enc of None \<Rightarrow> (Inl ErrInvalidInput, p)
      | Some c \<Rightarrow>
        if ring = [] \<or> \<not> c_text ring \<or> maxBytes < length data \<or> 1000000 < length vec then (Inl ErrInvalidInput, p)
        else if \<not> list_all f32_finite vec then (Inl ErrInvalidInput, p)
        else call h (put_job A ring data c vec) p)"

definition E_PutCodec ::
  "'s abi \<Rightarrow> DB option \<Rightarrow> string \<Rightarrow> bytes \<Rightarrow> codec \<Rightarrow> 's process \<Rightarrow> (go_error + eid) \<times> 's process" where
  "E_PutCodec A h ring data enc p = PutVec A h ring data enc [] p"

definition E_Put :: "'s abi \<Rightarrow> DB option \<Rightarrow> string \<Rightarrow> bytes \<Rightarrow> 's process \<Rightarrow> (go_error + eid) \<times> 's process" where
  "E_Put A h ring data p = E_PutCodec A h ring data Raw p"

definition E_PutJSON ::
  "'s abi \<Rightarrow> ('v \<Rightarrow> bytes option) \<Rightarrow> DB option \<Rightarrow> string \<Rightarrow> 'v \<Rightarrow> 's process \<Rightarrow> (go_error + eid) \<times> 's process" where
  "E_PutJSON A marshal h ring v p =
     (case marshal v of None \<Rightarrow> (Inl ErrInvalidInput, p)
      | Some b \<Rightarrow> E_PutCodec A h ring b JSON p)"

definition get_job :: "'s abi \<Rightarrow> eid \<Rightarrow> ('s, Payload option) job" where
  "get_job A i raw p =
     (let (x, s) = abi_exists A raw (toC i) (lib p); p1 = p\<lparr>lib := s\<rparr> in
      if x = 0 then (Inr None, p1)
      else if x \<noteq> 1 then (Inl lastError, p1)
      else let ((b, c), s2) = abi_get A raw (toC i) (lib p1);
               (r, p2) = take_buffer b (receive b (p1\<lparr>lib := s2\<rparr>))
           in (case r of Inl e \<Rightarrow> Inl e
               | Inr bs \<Rightarrow> if c < 0 \<or> 3 < c then Inl ErrABI
                   else Inr (Some \<lparr>Data = bs, Codec = codec_table ! nat c\<rparr>), p2))"

definition E_Get :: "'s abi \<Rightarrow> DB option \<Rightarrow> eid \<Rightarrow> 's process \<Rightarrow> (go_error + Payload option) \<times> 's process" where
  "E_Get A h i p = (if \<not> eid_valid i then (Inl ErrInvalidInput, p) else call h (get_job A i) p)"

text \<open>The target of \<open>json.Unmarshal\<close> is a value that the call may change.\<close>

definition E_GetJSON ::
  "'s abi \<Rightarrow> (bytes \<Rightarrow> 'd \<Rightarrow> bool \<times> 'd) \<Rightarrow> DB option \<Rightarrow> eid \<Rightarrow> 'd \<Rightarrow> 's process
     \<Rightarrow> (bool \<times> go_error option \<times> 'd) \<times> 's process" where
  "E_GetJSON A unm h i dst p =
     (case E_Get A h i p of
        (Inl e, p1) \<Rightarrow> ((False, Some e, dst), p1)
      | (Inr None, p1) \<Rightarrow> ((False, None, dst), p1)
      | (Inr (Some v), p1) \<Rightarrow>
        (if Codec v \<noteq> JSON then (True, Some ErrProtocol, dst)
         else case unm (Data v) dst of
             (True, d) \<Rightarrow> (True, None, d)
           | (False, d) \<Rightarrow> (True, Some ErrInvalidInput, d), p1))"

definition requireRecord :: "'s abi \<Rightarrow> nat \<Rightarrow> eid \<Rightarrow> 's process \<Rightarrow> go_error option \<times> 's process" where
  "requireRecord A raw i p =
     (let (x, s) = abi_exists A raw (toC i) (lib p)
      in (if x = 0 then Some ErrNotFound else if x = 1 then None else Some lastError, p\<lparr>lib := s\<rparr>))"

definition query_job :: "'s abi \<Rightarrow> eid \<Rightarrow> string \<Rightarrow> ('s, bytes) job" where
  "query_job A i sel raw p =
     (case requireRecord A raw i p of
        (Some e, p1) \<Rightarrow> (Inl e, p1)
      | (None, p1) \<Rightarrow>
        (let (b, s) = abi_query A raw (toC i) sel (lib p1)
         in take_buffer b (receive b (p1\<lparr>lib := s\<rparr>))))"

definition E_Query :: "'s abi \<Rightarrow> DB option \<Rightarrow> eid \<Rightarrow> string \<Rightarrow> 's process \<Rightarrow> (go_error + bytes) \<times> 's process" where
  "E_Query A h i sel p =
     (if \<not> eid_valid i \<or> \<not> c_text sel then (Inl ErrInvalidInput, p) else call h (query_job A i sel) p)"

definition update_job :: "'s abi \<Rightarrow> eid \<Rightarrow> bytes \<Rightarrow> int \<Rightarrow> ('s, unit) job" where
  "update_job A i data c raw p =
     (case requireRecord A raw i p of
        (Some e, p1) \<Rightarrow> (Inl e, p1)
      | (None, p1) \<Rightarrow>
        (let (rc, s) = abi_update A raw (toC i) (bytesPtr data) (length data) c (lib p1)
         in (if rc \<noteq> KOUTEN_OK then Inl lastError else Inr (), p1\<lparr>lib := s\<rparr>)))"

definition Update ::
  "'s abi \<Rightarrow> DB option \<Rightarrow> eid \<Rightarrow> bytes \<Rightarrow> codec \<Rightarrow> 's process \<Rightarrow> (go_error + unit) \<times> 's process" where
  "Update A h i data enc p =
     (case codec_code enc of None \<Rightarrow> (Inl ErrInvalidInput, p)
      | Some c \<Rightarrow>
        if \<not> eid_valid i \<or> maxBytes < length data then (Inl ErrInvalidInput, p)
        else call h (update_job A i data c) p)"

definition remove_job :: "'s abi \<Rightarrow> eid \<Rightarrow> ('s, unit) job" where
  "remove_job A i raw p =
     (case requireRecord A raw i p of
        (Some e, p1) \<Rightarrow> (Inl e, p1)
      | (None, p1) \<Rightarrow>
        (let (rc, s) = abi_remove A raw (toC i) (lib p1)
         in (if rc \<noteq> KOUTEN_OK then Inl lastError else Inr (), p1\<lparr>lib := s\<rparr>)))"

definition Remove :: "'s abi \<Rightarrow> DB option \<Rightarrow> eid \<Rightarrow> 's process \<Rightarrow> (go_error + unit) \<times> 's process" where
  "Remove A h i p = (if \<not> eid_valid i then (Inl ErrInvalidInput, p) else call h (remove_job A i) p)"


section \<open>ReadRing\<close>

record RingOptions =
  Filter :: bytes
  Selection :: string
  Limit :: int
  Cursor :: string
  Pagination :: bool
  Page :: int
  PageLimit :: int
  Sort :: string
  Descending :: bool

definition int32_ok :: "int \<Rightarrow> bool" where
  "int32_ok n \<longleftrightarrow> \<not> (n < 0 \<or> MaxInt32 < n)"

definition page_defaults :: "RingOptions \<Rightarrow> RingOptions" where
  "page_defaults ops =
     ops\<lparr>Page := (if Page ops = 0 then 1 else Page ops),
         PageLimit := (if PageLimit ops = 0 then 20 else PageLimit ops)\<rparr>"

definition ring_call :: "string \<Rightarrow> RingOptions \<Rightarrow> ring_args" where
  "ring_call ring ops =
     \<lparr>ra_ring = ring, ra_filter = Filter ops, ra_selection = Selection ops, ra_limit = Limit ops,
      ra_cursor = Cursor ops, ra_pagination = flag (Pagination ops), ra_page = Page ops,
      ra_page_limit = PageLimit ops, ra_sort = Sort ops, ra_desc = flag (Descending ops)\<rparr>"

definition ring_job :: "'s abi \<Rightarrow> ring_args \<Rightarrow> ('s, bytes) job" where
  "ring_job A ra raw p =
     (let (b, s) = abi_read_ring A raw ra (lib p) in take_buffer b (receive b (p\<lparr>lib := s\<rparr>)))"

text \<open>\<open>json_object\<close> tells whether \<open>json.Unmarshal\<close> into a map succeeds and gives an object,
  \<open>json_valid\<close> is \<open>json.Valid\<close>.\<close>

definition ReadRing ::
  "'s abi \<Rightarrow> (bytes \<Rightarrow> bool) \<Rightarrow> (bytes \<Rightarrow> bool) \<Rightarrow> DB option \<Rightarrow> string \<Rightarrow> RingOptions \<Rightarrow> 's process
     \<Rightarrow> (go_error + bytes) \<times> 's process" where
  "ReadRing A json_object json_valid h ring ops0 p =
     (if ring = [] \<or> \<not> list_all int32_ok [Limit ops0, Page ops0, PageLimit ops0] then (Inl ErrInvalidInput, p)
      else let ops = page_defaults ops0 in
        if \<not> list_all c_text [ring, Filter ops, Selection ops, Cursor ops, Sort ops] then (Inl ErrInvalidInput, p)
        else if Filter ops \<noteq> [] \<and> \<not> json_object (Filter ops) then (Inl ErrInvalidInput, p)
        else case call h (ring_job A (ring_call ring ops)) p of
            (Inl e, p1) \<Rightarrow> (Inl e, p1)
          | (Inr b, p1) \<Rightarrow> (if json_valid b then Inr b else Inl ErrABI, p1))"

end
