(* ===== verification/Embedded_Laws.thy ===== *)
theory Embedded_Laws
  imports Embedded
begin

text \<open>
  What the binding promises over any library, and, over a library that keeps the
  documented contract of a record store, that its operations are those of an abstract map
  from identities to payloads.
\<close>


section \<open>Over any library\<close>

lemma codec_code_table: "codec_code c = Some n \<Longrightarrow> 0 \<le> n \<and> n \<le> 3 \<and> codec_table ! nat n = c"
  by (auto simp: codec_code_def codec_table_def split: if_splits)

lemma codec_table_code: "0 \<le> n \<Longrightarrow> n \<le> 3 \<Longrightarrow> codec_code (codec_table ! nat n) = Some n"
proof -
  assume "0 \<le> n" "n \<le> 3"
  then have "n = 0 \<or> n = 1 \<or> n = 2 \<or> n = 3" by auto
  then show ?thesis by (auto simp: codec_code_def codec_table_def Raw_def JSON_def NIF_def BIF_def)
qed

lemma codec_code_Valid: "codec_code c \<noteq> None \<longleftrightarrow> codec_Valid c"
  by (auto simp: codec_code_def codec_Valid_def)

lemma fromC_toC [simp]: "fromC (toC i) = i" and toC_fromC [simp]: "toC (fromC k) = k"
  by (simp_all add: fromC_def toC_def)

lemma toC_inj: "toC i = toC j \<longleftrightarrow> i = j"
  by (metis fromC_toC)

text \<open>The errors of the binding.\<close>

definition e_class :: "go_error \<Rightarrow> bool" where
  "e_class e \<longleftrightarrow> e = ErrInvalidInput \<or> e = ErrClosed \<or> e = ErrABI \<or> e = ErrNotFound"

lemma e_class_simps [simp]: "e_class ErrInvalidInput" "e_class ErrClosed" "e_class ErrABI" "e_class ErrNotFound" "e_class lastError"
  by (simp_all add: e_class_def lastError_def)

lemma ErrNotFound_neq [simp]: "ErrNotFound \<noteq> ErrInvalidInput" "ErrNotFound \<noteq> ErrClosed" "ErrNotFound \<noteq> lastError" "ErrNotFound \<noteq> ErrABI"
    "ErrInvalidInput \<noteq> ErrNotFound" "ErrClosed \<noteq> ErrNotFound" "lastError \<noteq> ErrNotFound" "ErrABI \<noteq> ErrNotFound"
  by (simp_all add: lastError_def ErrABI_def ErrNotFound_def ErrInvalidInput_def ErrClosed_def)

text \<open>A job is well-behaved: it returns every buffer it got, and fails with one of these.\<close>

definition job_ok :: "('s, 'a) job \<Rightarrow> bool" where
  "job_ok fn \<longleftrightarrow> (\<forall>raw p r p1. fn raw p = (r, p1) \<longrightarrow> held p1 = held p \<and> inited p1 = inited p \<and> (\<forall>e. r = Inl e \<longrightarrow> e_class e))"

lemma job_okI:
  "(\<And>raw p r p1. fn raw p = (r, p1) \<Longrightarrow> held p1 = held p \<and> inited p1 = inited p \<and> (\<forall>e. r = Inl e \<longrightarrow> e_class e)) \<Longrightarrow> job_ok fn"
  by (simp add: job_ok_def)

lemma take_receive:
  "take_buffer b (receive b p) = (r, p1) \<Longrightarrow> held p1 = held p \<and> inited p1 = inited p \<and> lib p1 = lib p \<and>
     (\<forall>e. r = Inl e \<longrightarrow> e = ErrABI) \<and> (\<forall>bs. r = Inr bs \<longrightarrow> length bs \<le> maxBytes \<and> (\<exists>ptr. b = Some (ptr, bs)))"
  by (auto simp: take_buffer_def receive_def kouten_free_def lastError_def split: option.splits prod.splits if_splits)

lemma requireRecord_props:
  "requireRecord A raw i p = (r, p1) \<Longrightarrow> held p1 = held p \<and> inited p1 = inited p \<and> (\<forall>e. r = Some e \<longrightarrow> e_class e)
     \<and> lib p1 = snd (abi_exists A raw (toC i) (lib p))"
  by (auto simp: requireRecord_def Let_def split: prod.splits if_splits)

lemma put_job_ok: "job_ok (put_job A ring data c vec)"
  by (rule job_okI) (auto simp: put_job_def split: prod.splits if_splits)

lemma get_job_ok: "job_ok (get_job A i)"
  by (rule job_okI)
    (auto simp: get_job_def Let_def split: prod.splits if_splits sum.splits dest: take_receive)

lemma query_job_ok: "job_ok (query_job A i sel)"
  by (rule job_okI)
    (auto simp: query_job_def Let_def split: prod.splits option.splits dest: take_receive dest!: requireRecord_props)

lemma update_job_ok: "job_ok (update_job A i data c)"
  by (rule job_okI)
    (auto simp: update_job_def Let_def split: prod.splits option.splits if_splits dest!: requireRecord_props)

lemma remove_job_ok: "job_ok (remove_job A i)"
  by (rule job_okI)
    (auto simp: remove_job_def Let_def split: prod.splits option.splits if_splits dest!: requireRecord_props)

lemma ring_job_ok: "job_ok (ring_job A ra)"
  by (rule job_okI) (auto simp: ring_job_def Let_def split: prod.splits dest: take_receive)

text \<open>What a call leaves behind.\<close>

definition call_ok :: "'s process \<Rightarrow> (go_error + 'a) \<times> 's process \<Rightarrow> bool" where
  "call_ok p out = (case out of (r, p1) \<Rightarrow> held p1 = held p \<and> inited p1 = inited p \<and> (\<forall>e. r = Inl e \<longrightarrow> e_class e))"

lemma call_call_ok: "job_ok fn \<Longrightarrow> call_ok p (call h fn p)"
  by (auto simp: call_def call_ok_def job_ok_def split: option.splits)

lemma call_ok_guard [simp]: "e_class e \<Longrightarrow> call_ok p (Inl e, p)"
  by (simp add: call_ok_def)

lemma operations_call_ok:
  "call_ok p (PutVec A h ring data enc vec p)" "call_ok p (E_Get A h i p)" "call_ok p (E_Query A h i sel p)"
  "call_ok p (Update A h i data enc p)" "call_ok p (Remove A h i p)"
  by (auto simp: PutVec_def E_Get_def E_Query_def Update_def Remove_def call_call_ok put_job_ok get_job_ok
      query_job_ok update_job_ok remove_job_ok split: option.splits)

lemma ReadRing_call_ok: "call_ok p (ReadRing A jo jv h ring ops p)"
  using call_call_ok [OF ring_job_ok, of p h A "ring_call ring (page_defaults ops)"]
  by (auto simp: ReadRing_def Let_def call_ok_def split: prod.splits sum.splits)

text \<open>Arguments that reach the library are within the C types' ranges.\<close>

definition ring_args_ok :: "ring_args \<Rightarrow> bool" where
  "ring_args_ok ra \<longleftrightarrow> ra_ring ra \<noteq> [] \<and>
     list_all c_text [ra_ring ra, ra_filter ra, ra_selection ra, ra_cursor ra, ra_sort ra] \<and>
     0 \<le> ra_limit ra \<and> ra_limit ra \<le> MaxInt32 \<and> 1 \<le> ra_page ra \<and> ra_page ra \<le> MaxInt32 \<and>
     1 \<le> ra_page_limit ra \<and> ra_page_limit ra \<le> MaxInt32 \<and>
     ra_pagination ra \<in> {0, 1} \<and> ra_desc ra \<in> {0, 1}"

lemma ring_call_ok:
  assumes "ring \<noteq> []" "list_all int32_ok [Limit ops, Page ops, PageLimit ops]"
    and "list_all c_text [ring, Filter (page_defaults ops), Selection (page_defaults ops), Cursor (page_defaults ops), Sort (page_defaults ops)]"
  shows "ring_args_ok (ring_call ring (page_defaults ops))"
  using assms by (auto simp: ring_args_ok_def ring_call_def page_defaults_def int32_ok_def flag_def MaxInt32_def)

text \<open>\<open>ReadRing\<close> depends on the library only at such arguments.\<close>

lemma ReadRing_args:
  assumes "\<And>raw ra s. ring_args_ok ra \<Longrightarrow> abi_read_ring A raw ra s = abi_read_ring B raw ra s"
  shows "ReadRing A jo jv h ring ops p = ReadRing B jo jv h ring ops p"
proof -
  have "call h (ring_job A ra) p = call h (ring_job B ra) p" if "ring_args_ok ra" for ra
    using assms [OF that] by (simp add: call_def ring_job_def split: option.splits)
  from this [OF ring_call_ok, of ring ops] show ?thesis
    by (auto simp: ReadRing_def Let_def)
qed


section \<open>Over a record store\<close>

text \<open>
  \<open>view s h\<close> is what the library holds for the handle \<open>h\<close>: for each identity the codec
  number and the bytes.  The contract, from the header file: \<open>exists\<close> answers 1 when present
  and 0 when absent, reads change nothing, a successful write has its effect and nothing
  else, a failed one has none, a new record gets an identity not in use.
\<close>

text \<open>What the library reads behind a pointer: nothing behind a null one.\<close>

definition c_data :: "bytes ptr \<Rightarrow> nat \<Rightarrow> bytes" where
  "c_data ptr n = (case ptr of None \<Rightarrow> [] | Some b \<Rightarrow> take n b)"

lemma c_data_bytesPtr [simp]: "c_data (bytesPtr b) (length b) = b"
  by (simp add: c_data_def bytesPtr_def)

definition put_contract :: "'s abi \<Rightarrow> ('s \<Rightarrow> nat \<Rightarrow> kouten_id \<Rightarrow> (int \<times> bytes) option) \<Rightarrow> bool" where
  "put_contract A view \<longleftrightarrow>
     (\<forall>h ring d n c v m s rc k s1. abi_put A h ring d n c v m s = ((rc, k), s1) \<longrightarrow>
        (rc = KOUTEN_OK \<longrightarrow> view s h k = None \<and> view s1 = (view s)(h := (view s h)(k \<mapsto> (c, c_data d n)))) \<and>
        (rc \<noteq> KOUTEN_OK \<longrightarrow> view s1 = view s))"

definition store_contract :: "'s abi \<Rightarrow> ('s \<Rightarrow> nat \<Rightarrow> kouten_id \<Rightarrow> (int \<times> bytes) option) \<Rightarrow> bool" where
  "store_contract A view \<longleftrightarrow>
     (\<forall>h k s x s1. abi_exists A h k s = (x, s1) \<longrightarrow> view s1 = view s \<and>
        (x = 0 \<longrightarrow> view s h k = None) \<and> (x = 1 \<longrightarrow> view s h k \<noteq> None)) \<and>
     (\<forall>h k s b c s1. abi_get A h k s = ((b, c), s1) \<longrightarrow> view s1 = view s \<and>
        (\<forall>ptr bs. b = Some (ptr, bs) \<longrightarrow> view s h k = Some (c, bs))) \<and>
     (\<forall>h k sel s b s1. abi_query A h k sel s = (b, s1) \<longrightarrow> view s1 = view s) \<and>
     (\<forall>h ra s b s1. abi_read_ring A h ra s = (b, s1) \<longrightarrow> view s1 = view s) \<and>
     put_contract A view \<and>
     (\<forall>h k d n c s rc s1. abi_update A h k d n c s = (rc, s1) \<longrightarrow>
        view s1 = (if rc = KOUTEN_OK then (view s)(h := (view s h)(k \<mapsto> (c, c_data d n))) else view s)) \<and>
     (\<forall>h k s rc s1. abi_remove A h k s = (rc, s1) \<longrightarrow>
        view s1 = (if rc = KOUTEN_OK then (view s)(h := (view s h)(k := None)) else view s))"

lemma contract_exists:
  "store_contract A view \<Longrightarrow> abi_exists A h k s = (x, s1) \<Longrightarrow> view s1 = view s \<and>
     (x = 0 \<longrightarrow> view s h k = None) \<and> (x = 1 \<longrightarrow> view s h k \<noteq> None)"
  by (simp add: store_contract_def)

lemma contract_get:
  "store_contract A view \<Longrightarrow> abi_get A h k s = ((b, c), s1) \<Longrightarrow> view s1 = view s \<and>
     (\<forall>ptr bs. b = Some (ptr, bs) \<longrightarrow> view s h k = Some (c, bs))"
  by (simp add: store_contract_def)

lemma contract_query: "store_contract A view \<Longrightarrow> abi_query A h k sel s = (b, s1) \<Longrightarrow> view s1 = view s"
  by (simp add: store_contract_def)

lemma contract_put:
  "store_contract A view \<Longrightarrow> abi_put A h ring d n c v m s = ((rc, k), s1) \<Longrightarrow>
     (rc = KOUTEN_OK \<longrightarrow> view s h k = None \<and> view s1 = (view s)(h := (view s h)(k \<mapsto> (c, c_data d n)))) \<and>
     (rc \<noteq> KOUTEN_OK \<longrightarrow> view s1 = view s)"
proof -
  assume "store_contract A view" and put: "abi_put A h ring d n c v m s = ((rc, k), s1)"
  then have "put_contract A view" by (simp only: store_contract_def)
  from this [unfolded put_contract_def, rule_format, OF put] show ?thesis by blast
qed

lemma contract_update:
  "store_contract A view \<Longrightarrow> abi_update A h k d n c s = (rc, s1) \<Longrightarrow>
     view s1 = (if rc = KOUTEN_OK then (view s)(h := (view s h)(k \<mapsto> (c, c_data d n))) else view s)"
  unfolding store_contract_def by blast

lemma contract_remove:
  "store_contract A view \<Longrightarrow> abi_remove A h k s = (rc, s1) \<Longrightarrow>
     view s1 = (if rc = KOUTEN_OK then (view s)(h := (view s h)(k := None)) else view s)"
  unfolding store_contract_def by blast

text \<open>The abstract state of an open handle: identities of Go to payloads.\<close>

definition abs_store ::
  "('s \<Rightarrow> nat \<Rightarrow> kouten_id \<Rightarrow> (int \<times> bytes) option) \<Rightarrow> DB \<Rightarrow> 's process \<Rightarrow> eid \<Rightarrow> (int \<times> bytes) option" where
  "abs_store view db p i = view (lib p) (db_raw db) (toC i)"

lemma abs_store_fun: "abs_store view db p = (\<lambda>i. view (lib p) (db_raw db) (toC i))"
  by (simp add: abs_store_def fun_eq_iff)

lemma PutVec_refines:
  assumes ct: "store_contract A view" and put: "PutVec A (Some db) ring data enc vec p = (r, p1)"
  shows "case r of
      Inr i \<Rightarrow> \<exists>c. codec_code enc = Some c \<and> abs_store view db p i = None \<and> abs_store view db p1 = (abs_store view db p)(i \<mapsto> (c, data))
    | Inl e \<Rightarrow> abs_store view db p1 = abs_store view db p"
  using put
  by (auto simp: PutVec_def call_def put_job_def abs_store_def fun_eq_iff toC_inj
      split: option.splits if_splits prod.splits dest!: contract_put [OF ct])

lemma requireRecord_refines:
  assumes ct: "store_contract A view" and rq: "requireRecord A (db_raw db) i p = (r, p1)"
  shows "abs_store view db p1 = abs_store view db p \<and> (r = None \<longrightarrow> abs_store view db p i \<noteq> None) \<and>
    (r = Some ErrNotFound \<longrightarrow> abs_store view db p i = None)"
  using rq by (auto simp: requireRecord_def abs_store_def Let_def fun_eq_iff split: prod.splits if_splits
      dest!: contract_exists [OF ct])

lemma E_Get_refines:
  assumes ct: "store_contract A view" and g: "E_Get A (Some db) i p = (r, p1)"
  shows "abs_store view db p1 = abs_store view db p"
    and "r = Inr None \<Longrightarrow> abs_store view db p i = None"
    and "r = Inr (Some v) \<Longrightarrow> \<exists>c. codec_code (Codec v) = Some c \<and> abs_store view db p i = Some (c, Data v)"
proof -
  have pr: "\<exists>x s. abi_exists A (db_raw db) (toC i) (lib p) = (x, s)" by fastforce
  have main: "abs_store view db p1 = abs_store view db p \<and>
      (r = Inr None \<longrightarrow> abs_store view db p i = None) \<and>
      (\<forall>v. r = Inr (Some v) \<longrightarrow> (\<exists>c. codec_code (Codec v) = Some c \<and> abs_store view db p i = Some (c, Data v)))"
  proof (cases "eid_valid i \<and> \<not> db_closed db")
    case False
    with g show ?thesis by (auto simp: E_Get_def call_def split: if_splits)
  next
    case True
    obtain x s where ex: "abi_exists A (db_raw db) (toC i) (lib p) = (x, s)" by fastforce
    note ce = contract_exists [OF ct ex]
    show ?thesis
    proof (cases "x = 1")
      case False
      with g True ex ce show ?thesis
        by (auto simp: E_Get_def call_def get_job_def abs_store_def Let_def split: if_splits)
    next
      case x: True
      obtain b c s2 where ge: "abi_get A (db_raw db) (toC i) s = ((b, c), s2)" by (metis surj_pair)
      obtain q p2 where tb: "take_buffer b (receive b (p\<lparr>lib := s2\<rparr>)) = (q, p2)" by fastforce
      note cg = contract_get [OF ct ge] and tr = take_receive [OF tb]
      have out: "p1 = p2" "r = (case q of Inl e \<Rightarrow> Inl e
          | Inr bs \<Rightarrow> if c < 0 \<or> 3 < c then Inl ErrABI else Inr (Some \<lparr>Data = bs, Codec = codec_table ! nat c\<rparr>))"
        using g True ex x ge tb by (auto simp: E_Get_def call_def get_job_def Let_def)
      have "abs_store view db p1 = abs_store view db p"
        using out(1) tr ce cg by (simp add: abs_store_fun)
      moreover have "\<exists>c. codec_code (Codec v) = Some c \<and> abs_store view db p i = Some (c, Data v)" if "r = Inr (Some v)" for v
      proof -
        from that out(2) obtain bs where "q = Inr bs" "0 \<le> c" "c \<le> 3" "v = \<lparr>Data = bs, Codec = codec_table ! nat c\<rparr>"
          by (auto split: sum.splits if_splits)
        with tr cg ce codec_table_code show ?thesis by (auto simp: abs_store_def)
      qed
      moreover have "r \<noteq> Inr None" using out(2) by (auto split: sum.splits)
      ultimately show ?thesis by blast
    qed
  qed
  show "abs_store view db p1 = abs_store view db p"
    and "r = Inr None \<Longrightarrow> abs_store view db p i = None"
    and "r = Inr (Some v) \<Longrightarrow> \<exists>c. codec_code (Codec v) = Some c \<and> abs_store view db p i = Some (c, Data v)"
    using main by blast+
qed

lemma Update_refines:
  assumes ct: "store_contract A view" and u: "Update A (Some db) i data enc p = (r, p1)"
  shows "case r of
      Inr _ \<Rightarrow> \<exists>c. codec_code enc = Some c \<and> abs_store view db p i \<noteq> None \<and> abs_store view db p1 = (abs_store view db p)(i \<mapsto> (c, data))
    | Inl e \<Rightarrow> abs_store view db p1 = abs_store view db p \<and> (e = ErrNotFound \<longrightarrow> abs_store view db p i = None)"
proof (cases "\<exists>c. codec_code enc = Some c \<and> eid_valid i \<and> length data \<le> maxBytes \<and> \<not> db_closed db")
  case False
  with u show ?thesis
    by (auto simp: Update_def call_def split: option.splits if_splits)
next
  case True
  then obtain c where c: "codec_code enc = Some c" "eid_valid i" "length data \<le> maxBytes" "\<not> db_closed db" by blast
  obtain x p2 where rq: "requireRecord A (db_raw db) i p = (x, p2)" by fastforce
  note rr = requireRecord_refines [OF ct rq]
  obtain rc s where up: "abi_update A (db_raw db) (toC i) (bytesPtr data) (length data) c (lib p2) = (rc, s)" by fastforce
  have out: "(r, p1) = (case x of Some e \<Rightarrow> (Inl e, p2)
      | None \<Rightarrow> (if rc \<noteq> KOUTEN_OK then Inl lastError else Inr (), p2\<lparr>lib := s\<rparr>))"
    using u c rq up by (auto simp: Update_def call_def update_job_def split: option.splits)
  have upd: "abs_store view db (p2\<lparr>lib := s\<rparr>) =
      (if rc = KOUTEN_OK then (abs_store view db p2)(i \<mapsto> (c, data)) else abs_store view db p2)"
    by (rule ext) (simp add: abs_store_def contract_update [OF ct up] toC_inj)
  show ?thesis
  proof (cases x)
    case None
    with out have o: "r = (if rc \<noteq> KOUTEN_OK then Inl lastError else Inr ())" "p1 = p2\<lparr>lib := s\<rparr>" by simp_all
    from rr None have "abs_store view db p2 = abs_store view db p" "abs_store view db p i \<noteq> None" by blast+
    then show ?thesis unfolding o upd using c(1) by simp
  next
    case (Some e)
    with out rr show ?thesis by simp
  qed
qed

lemma Remove_refines:
  assumes ct: "store_contract A view" and u: "Remove A (Some db) i p = (r, p1)"
  shows "case r of
      Inr _ \<Rightarrow> abs_store view db p i \<noteq> None \<and> abs_store view db p1 = (abs_store view db p)(i := None)
    | Inl e \<Rightarrow> abs_store view db p1 = abs_store view db p \<and> (e = ErrNotFound \<longrightarrow> abs_store view db p i = None)"
proof (cases "eid_valid i \<and> \<not> db_closed db")
  case False
  with u show ?thesis
    by (auto simp: Remove_def call_def split: if_splits)
next
  case True
  obtain x p2 where rq: "requireRecord A (db_raw db) i p = (x, p2)" by fastforce
  note rr = requireRecord_refines [OF ct rq]
  obtain rc s where up: "abi_remove A (db_raw db) (toC i) (lib p2) = (rc, s)" by fastforce
  have out: "(r, p1) = (case x of Some e \<Rightarrow> (Inl e, p2)
      | None \<Rightarrow> (if rc \<noteq> KOUTEN_OK then Inl lastError else Inr (), p2\<lparr>lib := s\<rparr>))"
    using u True rq up by (auto simp: Remove_def call_def remove_job_def split: option.splits)
  have upd: "abs_store view db (p2\<lparr>lib := s\<rparr>) =
      (if rc = KOUTEN_OK then (abs_store view db p2)(i := None) else abs_store view db p2)"
    by (rule ext) (simp add: abs_store_def contract_remove [OF ct up] toC_inj)
  show ?thesis
  proof (cases x)
    case None
    with out have o: "r = (if rc \<noteq> KOUTEN_OK then Inl lastError else Inr ())" "p1 = p2\<lparr>lib := s\<rparr>" by simp_all
    from rr None have "abs_store view db p2 = abs_store view db p" "abs_store view db p i \<noteq> None" by blast+
    then show ?thesis unfolding o upd by simp
  next
    case (Some e)
    with out rr show ?thesis by simp
  qed
qed

end
