(* ===== verification/Examples.thy ===== *)
theory Examples
  imports Conversation Embedded_Laws
begin

text \<open>
  The two example programs, \<open>examples/tcp/main.go\<close> and \<open>examples/embedded/main.go\<close>: they
  put a record and read it back.  \<open>log.Fatal\<close> ends the process without running deferred
  calls; on the way to the end of \<open>main\<close> the deferred \<open>Close\<close> runs.
\<close>


section \<open>The programs\<close>

text \<open>How \<open>main\<close> ends: with \<open>log.Fatal\<close> of an error, with the report on the read, or at its
  end after printing a line.\<close>

datatype main_end = Fatal go_error | FatalGet bool "go_error option" | Printed string

text \<open>\<open>env\<close> is the value of \<open>KOUTENDB_ENDPOINT\<close>.  A map of strings is given to \<open>marshal\<close> as its
  pairs; the structs \<open>unm\<close> writes to have one string field.\<close>

definition tcp_main ::
  "crypto \<Rightarrow> (string \<Rightarrow> bytes option) \<Rightarrow> ((string \<times> string) list \<Rightarrow> bytes option) \<Rightarrow> string unmarshal
     \<Rightarrow> string \<Rightarrow> world \<Rightarrow> main_end \<times> world" where
  "tcp_main C load_ca marshal unm env w =
     (let endpoint = (if env = [] then ''127.0.0.1:17301'' else env);
          cx = with_timeout background (10 * Second) (w_clock w)
      in case Dial C load_ca (Some cx) [endpoint] zero_Options w of
         (Inl e, w1) \<Rightarrow> (Fatal e, w1)
       | (Inr c, w1) \<Rightarrow>
         (case PutJSON C marshal (Some cx) (Some c) ''examples/go'' [(''title'', ''Go TCP example'')] w1 of
            (Inl e, h, w2) \<Rightarrow> (Fatal e, w2)
          | (Inr i, h, w2) \<Rightarrow>
            (case GetJSON C unm (Some cx) h i [] w2 of
               ((found, err, title), h2, w3) \<Rightarrow>
                 if err \<noteq> None \<or> \<not> found then (FatalGet found err, w3)
                 else (Printed (ID_String i @ '' '' @ title @ [LF]), snd (Close h2 w3)))))"

definition embedded_main ::
  "'s abi \<Rightarrow> ((string \<times> string) list \<Rightarrow> bytes option) \<Rightarrow> (bytes \<Rightarrow> string \<Rightarrow> bool \<times> string)
     \<Rightarrow> (bytes \<Rightarrow> bool) \<Rightarrow> (bytes \<Rightarrow> bool) \<Rightarrow> 's process \<Rightarrow> main_end \<times> 's process" where
  "embedded_main A marshal unm json_object json_valid p =
     (case Open A 8 p of
        (Inl e, p1) \<Rightarrow> (Fatal e, p1)
      | (Inr db, p1) \<Rightarrow>
        (case E_PutJSON A marshal (Some db) ''users/123/profile'' [(''name'', ''Ada'')] p1 of
           (Inl e, p2) \<Rightarrow> (Fatal e, p2)
         | (Inr i, p2) \<Rightarrow>
           (case E_GetJSON A unm (Some db) i [] p2 of
              ((found, err, name), p3) \<Rightarrow>
                if err \<noteq> None \<or> \<not> found then (FatalGet found err, p3)
                else (case ReadRing A json_object json_valid (Some db) ''users/123/profile''
                        \<lparr>Filter = [], Selection = ''{ name }'', Limit = 10, Cursor = [], Pagination = False,
                         Page = 0, PageLimit = 0, Sort = [], Descending = False\<rparr> p3 of
                    (Inl e, p4) \<Rightarrow> (Fatal e, p4)
                  | (Inr page, p4) \<Rightarrow> (Printed (name @ '' '' @ page @ [LF]), snd (DB_Close A (Some db) p4))))))"


section \<open>The TCP example\<close>

definition example_endpoint :: "string \<Rightarrow> string" where
  "example_endpoint env = (if env = [] then ''127.0.0.1:17301'' else env)"

text \<open>The options the example runs with.\<close>

definition default_opts :: Options where
  "default_opts = zero_Options\<lparr>ConnectTimeout := 5 * Second, ReadTimeout := 5 * Second,
     WriteTimeout := 5 * Second, MaxFrameBytes := maxFrame, MaxRedirects := 8\<rparr>"

lemma normalize_zero: "peer_ok p \<Longrightarrow> normalize load_ca [p] zero_Options = Inr (default_opts, None)"
  by (simp add: normalize_def norm_duration_def norm_credentials_def default_opts_def zero_Options_def
      no_credentials_def Second_def Hour_def maxFrame_def field_ok_def Let_def)

text \<open>The server welcomes the client, names an identity, and returns the bytes of the write.\<close>

definition example_replies :: "ID \<Rightarrow> bytes \<Rightarrow> (int \<times> bytes) list" where
  "example_replies i data = [(0, id_reply i), (0, value_line 0 data JSON @ LF # data)]"

lemma PutJSON_conversing:
  assumes "conversing C cx F c w ((0, id_reply i) # rs)" "marshal v = Some data" "put_input_ok c ring data JSON" "ID_valid i"
  shows "\<exists>c1 w1. PutJSON C marshal (Some cx) (Some c) ring v w = (Inr i, Some c1, w1) \<and> conversing C cx F c1 w1 rs \<and> same_client c c1"
  using PutCodec_conversing [OF assms(1,3,4)] assms(2) by (simp add: PutJSON_def)

lemma GetJSON_conversing:
  assumes conv: "conversing C cx F c w (route 0 hops b @ rs)" and i: "ID_valid i" and h: "hops_ok c hops" "int (length hops) \<le> MaxRedirects (cl_opts c)"
    and out: "outcome_reply c (Some \<lparr>Data = data, Codec = JSON\<rparr>) b" and unm: "unm data dst = (None, d)"
  shows "\<exists>c1 w1. GetJSON C unm (Some cx) (Some c) i dst w = ((True, None, d), Some c1, w1) \<and> conversing C cx F c1 w1 rs"
proof -
  have "read_input_ok c i None" using i by (simp add: read_input_ok_def)
  from read_record_conversing [OF conv this h out] unm show ?thesis
    by (auto simp: GetJSON_def Get_def decodeJSON_def)
qed

lemma tcp_main_prints:
  assumes w: "world_ok w" and ep: "peer_ok (example_endpoint env)" and time: "horizon w < w_clock w + 5 * Second"
    and json: "marshal [(''title'', ''Go TCP example'')] = Some data" "unm data [] = (None, title)" "length data \<le> 1000000"
    and i: "ID_valid i"
    and srv: "answers C 21 (new_client [example_endpoint env] default_opts None) w {} ((0, []) # example_replies i data)"
  shows "\<exists>w1. tcp_main C load_ca marshal unm env w = (Printed (ID_String i @ '' '' @ title @ [LF]), w1) \<and> open_conns w1 = open_conns w"
proof -
  let ?cx = "with_timeout background (10 * Second) (w_clock w)"
  have cx: "in_time ?cx w" by (rule in_time_timeout) (use time in \<open>simp_all add: in_time_never background_def Second_def\<close>)
  have n: "normalize load_ca [example_endpoint env] zero_Options = Inr (default_opts, None)" by (rule normalize_zero [OF ep])
  have "horizon w < w_clock w + ConnectTimeout default_opts" using time by (simp add: default_opts_def)
  from Dial_conversing [OF w n cx this, where C = C and rs = "example_replies i data"] srv obtain c w1 where
    d: "Dial C load_ca (Some ?cx) [example_endpoint env] zero_Options w = (Inr c, w1)"
      "conversing C ?cx (open_conns w) c w1 (example_replies i data)" "cl_peers c = [example_endpoint env]" "cl_opts c = default_opts"
    by (auto simp: example_replies_def)
  have "put_input_ok c ''examples/go'' data JSON"
    using d(4) json(3) by (simp add: put_input_ok_def default_opts_def maxFrame_def codec_Valid_def)
  from PutJSON_conversing [where marshal = marshal and v = "[(''title'', ''Go TCP example'')]", OF d(2) [unfolded example_replies_def] json(1) this i] obtain c1 w2 where
    p: "PutJSON C marshal (Some ?cx) (Some c) ''examples/go'' [(''title'', ''Go TCP example'')] w1 = (Inr i, Some c1, w2)"
      "conversing C ?cx (open_conns w) c1 w2 [(0, value_line 0 data JSON @ LF # data)]" "same_client c c1" by blast
  have o1: "cl_opts c1 = default_opts" "cl_peers c1 = [example_endpoint env]" using p(3) d(3,4) by (simp_all add: same_client_def)
  let ?b = "value_line 0 data JSON @ LF # data"
  have r0: "conversing C ?cx (open_conns w) c1 w2 (route 0 [] ?b @ [])" using p(2) by simp
  have out: "outcome_reply c1 (Some \<lparr>Data = data, Codec = JSON\<rparr>) ?b"
    using json(3) by (auto simp: outcome_reply_def o1 codec_Valid_def default_opts_def maxFrame_def max_node_def)
  have hops: "hops_ok c1 []" "int (length ([] :: (ID \<times> int option) list)) \<le> MaxRedirects (cl_opts c1)"
    by (simp_all add: hops_ok_def o1 default_opts_def)
  from GetJSON_conversing [where unm = unm and dst = "[]" and d = title, OF r0 i hops out json(2)] obtain c2 w3 where
    g: "GetJSON C unm (Some ?cx) (Some c1) i [] w2 = ((True, None, title), Some c2, w3)" "conversing C ?cx (open_conns w) c2 w3 []"
    by blast
  obtain h w4 where cl: "Close (Some c2) w3 = (h, w4)" by fastforce
  from Close_effect [OF conversing_inv [OF g(2)] cl] have "open_conns w4 = open_conns w" by blast
  with d(1) p(1) g(1) cl show ?thesis by (simp add: tcp_main_def example_endpoint_def Let_def)
qed



section \<open>The embedded example\<close>

text \<open>What every operation of the binding keeps: the buffers it was handed are returned.\<close>

lemma operations_held:
  "PutVec A h ring data enc vec p = (r, p1) \<Longrightarrow> held p1 = held p"
  "E_Get A h i p = (q, p1) \<Longrightarrow> held p1 = held p"
  "ReadRing A jo jv h ring ops p = (x, p1) \<Longrightarrow> held p1 = held p"
  using operations_call_ok(1) [of p A h ring data enc vec] operations_call_ok(2) [of p A h i] ReadRing_call_ok [of p A jo jv h ring ops]
  by (simp_all add: call_ok_def)

lemma Open_held: "Open A n p = (r, p1) \<Longrightarrow> held p1 = held p"
  by (auto simp: Open_def OpenWithOptions_def worker_start_def init_once_def Let_def split: if_splits prod.splits option.splits sum.splits)

lemma Open_open: "Open A n p = (Inr db, p1) \<Longrightarrow> \<not> db_closed db"
  by (auto simp: Open_def OpenWithOptions_def split: if_splits prod.splits sum.splits)

lemma E_PutJSON_call: "E_PutJSON A marshal h ring v p = (Inr i, p1) \<Longrightarrow>
   \<exists>data. marshal v = Some data \<and> PutVec A h ring data JSON [] p = (Inr i, p1)"
  by (auto simp: E_PutJSON_def E_PutCodec_def split: option.splits)

lemma E_PutJSON_held: "E_PutJSON A marshal h ring v p = (r, p1) \<Longrightarrow> held p1 = held p"
  by (auto simp: E_PutJSON_def E_PutCodec_def split: option.splits dest: operations_held(1))

lemma E_GetJSON_call: "E_GetJSON A unm h i dst p = ((True, None, d), p1) \<Longrightarrow>
   \<exists>v. E_Get A h i p = (Inr (Some v), p1) \<and> Codec v = JSON \<and> unm (Data v) dst = (True, d)"
  by (auto simp: E_GetJSON_def split: prod.splits sum.splits option.splits if_splits bool.splits)

lemma E_GetJSON_held: "E_GetJSON A unm h i dst p = (r, p1) \<Longrightarrow> held p1 = held p"
  by (auto simp: E_GetJSON_def split: prod.splits sum.splits option.splits if_splits dest: operations_held(2))

lemma DB_Close_held: "held (snd (DB_Close A h p)) = held p"
  by (simp add: DB_Close_def split: option.split)

lemma embedded_main_held: "embedded_main A marshal unm jo jv p = (out, p1) \<Longrightarrow> held p1 = held p"
  by (auto simp: embedded_main_def DB_Close_held split: prod.splits sum.splits if_splits
      dest!: Open_held E_PutJSON_held E_GetJSON_held operations_held(3))

text \<open>What it prints was decoded from the very record that it put.\<close>

lemma embedded_main_prints:
  assumes ct: "store_contract A view" and m: "embedded_main A marshal unm jo jv p = (Printed s, p1)"
  shows "\<exists>data name page. marshal [(''name'', ''Ada'')] = Some data \<and> unm data [] = (True, name) \<and> jv page \<and> s = name @ '' '' @ page @ [LF]"
proof -
  from m obtain db p2 where op: "Open A 8 p = (Inr db, p2)"
    by (auto simp: embedded_main_def split: prod.splits sum.splits)
  from m op obtain i p3 where pj: "E_PutJSON A marshal (Some db) ''users/123/profile'' [(''name'', ''Ada'')] p2 = (Inr i, p3)"
    by (auto simp: embedded_main_def split: prod.splits sum.splits)
  from m op pj obtain name p4 where gj: "E_GetJSON A unm (Some db) i [] p3 = ((True, None, name), p4)"
    by (auto simp: embedded_main_def split: prod.splits if_splits)
  from m op pj gj obtain page p5 where rr: "ReadRing A jo jv (Some db) ''users/123/profile''
      \<lparr>Filter = [], Selection = ''{ name }'', Limit = 10, Cursor = [], Pagination = False,
       Page = 0, PageLimit = 0, Sort = [], Descending = False\<rparr> p4 = (Inr page, p5)" "s = name @ '' '' @ page @ [LF]"
    by (auto simp: embedded_main_def split: prod.splits sum.splits)
  from E_PutJSON_call [OF pj] obtain data where put: "marshal [(''name'', ''Ada'')] = Some data"
    "PutVec A (Some db) ''users/123/profile'' data JSON [] p2 = (Inr i, p3)" by blast
  from E_GetJSON_call [OF gj] obtain v where get: "E_Get A (Some db) i p3 = (Inr (Some v), p4)" "unm (Data v) [] = (True, name)" by blast
  from PutVec_refines [OF ct put(2)] obtain c where "abs_store view db p3 i = Some (c, data)" by auto
  with E_Get_refines(3) [OF ct get(1) refl] have "Data v = data" by auto
  moreover have "jv page" using rr(1) by (auto simp: ReadRing_def Let_def split: prod.splits sum.splits if_splits)
  ultimately show ?thesis using put(1) get(2) rr(2) by auto
qed

end
