(* ===== verification/Guarded.thy ===== *)
theory Guarded
  imports Prelude
begin

text \<open>
  The two contracts a serialised object gives: callers inside its critical section exclude
  each other, and its history is that of a sequential object.  The gate of the TCP client
  (a channel holding one token) and the mutex, channel and worker thread of the embedded
  handle both provide them.
\<close>


section \<open>Mutual exclusion\<close>

definition guarded :: "('st \<Rightarrow> bool) \<Rightarrow> ('st \<Rightarrow> nat \<Rightarrow> bool) \<Rightarrow> 'st \<Rightarrow> bool" where
  "guarded free inside s \<longleftrightarrow>
     (free s \<longleftrightarrow> (\<forall>i. \<not> inside s i)) \<and> (\<forall>i j. inside s i \<longrightarrow> inside s j \<longrightarrow> i = j)"

text \<open>A step that changes nobody's place, lets somebody in, or lets somebody out.\<close>

definition passes :: "('st \<Rightarrow> bool) \<Rightarrow> ('st \<Rightarrow> nat \<Rightarrow> bool) \<Rightarrow> 'st \<Rightarrow> 'st \<Rightarrow> bool" where
  "passes free inside s t \<longleftrightarrow>
     (free t = free s \<and> inside t = inside s) \<or>
     (free s \<and> \<not> free t \<and> (\<exists>i. inside t = (inside s)(i := True))) \<or>
     (free t \<and> (\<exists>i. inside s i \<and> inside t = (inside s)(i := False)))"

lemma passes_same: "free t = free s \<Longrightarrow> (\<And>j. inside t j \<longleftrightarrow> inside s j) \<Longrightarrow> passes free inside s t"
  by (auto simp: passes_def fun_eq_iff)

lemma passes_enter: "free s \<Longrightarrow> \<not> free t \<Longrightarrow> (\<And>j. inside t j \<longleftrightarrow> j = i \<or> inside s j) \<Longrightarrow> passes free inside s t"
  by (auto simp: passes_def fun_eq_iff)

lemma passes_exit: "free t \<Longrightarrow> inside s i \<Longrightarrow> (\<And>j. inside t j \<longleftrightarrow> j \<noteq> i \<and> inside s j) \<Longrightarrow> passes free inside s t"
  by (auto simp: passes_def fun_eq_iff)

lemma guarded_passes: "guarded free inside s \<Longrightarrow> passes free inside s t \<Longrightarrow> guarded free inside t"
  unfolding guarded_def passes_def by (elim disjE exE conjE) auto

locale guarded_object =
  fixes init :: 'st and step :: "'st \<Rightarrow> 'st \<Rightarrow> bool"
    and free :: "'st \<Rightarrow> bool" and inside :: "'st \<Rightarrow> nat \<Rightarrow> bool"
  assumes init_guarded: "guarded free inside init"
    and step_guarded: "guarded free inside s \<Longrightarrow> step s t \<Longrightarrow> guarded free inside t"
begin

lemma reachable_guarded: "step\<^sup>*\<^sup>* init s \<Longrightarrow> guarded free inside s"
  by (induction rule: rtranclp_induct) (auto intro: init_guarded step_guarded)

lemma exclusion: "step\<^sup>*\<^sup>* init s \<Longrightarrow> inside s i \<Longrightarrow> inside s j \<Longrightarrow> i = j"
  using reachable_guarded by (auto simp: guarded_def)

lemma held_by_someone: "step\<^sup>*\<^sup>* init s \<Longrightarrow> \<not> free s \<Longrightarrow> \<exists>!i. inside s i"
  using reachable_guarded by (auto simp: guarded_def)

end


section \<open>Sequential histories\<close>

text \<open>A sequential object answers one request after the other.\<close>

fun run_spec :: "('a \<Rightarrow> 'q \<Rightarrow> 'r \<times> 'a) \<Rightarrow> 'a \<Rightarrow> 'q list \<Rightarrow> 'r list \<times> 'a" where
  "run_spec spec a [] = ([], a)"
| "run_spec spec a (q # qs) =
     (let (r, a1) = spec a q; (rs, a2) = run_spec spec a1 qs in (r # rs, a2))"

lemma run_spec_snoc:
  "run_spec spec a qs = (rs, a1) \<Longrightarrow> spec a1 q = (r, a2) \<Longrightarrow> run_spec spec a (qs @ [q]) = (rs @ [r], a2)"
  by (induction qs arbitrary: a rs) (auto split: prod.splits)

text \<open>Two objects that answer alike, one seen through \<open>f\<close>.\<close>

lemma run_spec_image:
  assumes "\<And>a q. spec' (f a) q = (let (r, b) = spec a q in (r, f b))"
  shows "run_spec spec' (f a) qs = (let (rs, b) = run_spec spec a qs in (rs, f b))"
  by (induction qs arbitrary: a) (auto simp: assms split: prod.splits)

text \<open>Every step either leaves history and abstract state alone or appends one answered
  request of the sequential object.\<close>

locale linear_object =
  fixes init :: 'st and step :: "'st \<Rightarrow> 'st \<Rightarrow> bool" and inv :: "'st \<Rightarrow> bool"
    and history :: "'st \<Rightarrow> ('q \<times> 'r) list" and abs :: "'st \<Rightarrow> 'a"
    and spec :: "'a \<Rightarrow> 'q \<Rightarrow> 'r \<times> 'a"
  assumes init_inv: "inv init"
    and step_inv: "inv s \<Longrightarrow> step s t \<Longrightarrow> inv t"
    and init_history: "history init = []"
    and step_history: "inv s \<Longrightarrow> step s t \<Longrightarrow>
      (history t = history s \<and> abs t = abs s) \<or>
      (\<exists>q r. history t = history s @ [(q, r)] \<and> spec (abs s) q = (r, abs t))"
begin

lemma reachable_inv: "step\<^sup>*\<^sup>* init s \<Longrightarrow> inv s"
  by (induction rule: rtranclp_induct) (auto intro: init_inv step_inv)

lemma sequential: "step\<^sup>*\<^sup>* init s \<Longrightarrow>
   run_spec spec (abs init) (map fst (history s)) = (map snd (history s), abs s)"
proof (induction rule: rtranclp_induct)
  case base
  then show ?case by (simp add: init_history)
next
  case (step s t)
  from step_history [OF reachable_inv [OF step(1)] step(2)] step(3) show ?case
    by (auto intro: run_spec_snoc)
qed

end


section \<open>Draining\<close>

text \<open>Callers \<open>0..<n\<close> may be active; each has a rank that its steps lower.\<close>

definition idle_from :: "nat \<Rightarrow> 'c \<Rightarrow> (nat \<Rightarrow> 'c) \<Rightarrow> bool" where
  "idle_from n z f \<longleftrightarrow> (\<forall>i \<ge> n. f i = z)"

definition total_rank :: "('c \<Rightarrow> nat) \<Rightarrow> nat \<Rightarrow> (nat \<Rightarrow> 'c) \<Rightarrow> nat" where
  "total_rank rank n f = (\<Sum>i<n. rank (f i))"

lemma total_rank_upd:
  assumes "i < n"
  shows "total_rank rank n (f(i := c)) + rank (f i) = total_rank rank n f + rank c"
proof -
  have fin: "finite {..<n}" "i \<in> {..<n}" using assms by auto
  have "(\<Sum>j\<in>{..<n} - {i}. rank ((f(i := c)) j)) = (\<Sum>j\<in>{..<n} - {i}. rank (f j))" by (rule sum.cong) auto
  with sum.remove [OF fin, of "\<lambda>j. rank (f j)"] sum.remove [OF fin, of "\<lambda>j. rank ((f(i := c)) j)"]
  show ?thesis by (simp add: total_rank_def)
qed

lemma total_rank_less:
  "idle_from n z f \<Longrightarrow> f i \<noteq> z \<Longrightarrow> rank c + k < rank (f i) \<Longrightarrow> total_rank rank n (f(i := c)) + k < total_rank rank n f"
  using total_rank_upd [of i n rank f c] by (cases "i < n") (auto simp: idle_from_def)

lemma idle_from_upd: "idle_from n z f \<Longrightarrow> f i \<noteq> z \<Longrightarrow> idle_from n z (f(i := c))"
  by (auto simp: idle_from_def)

lemma total_rank_le: "(\<And>c. rank c \<le> m) \<Longrightarrow> total_rank rank n f \<le> n * m"
  using sum_bounded_above [of "{..<n}" "\<lambda>i. rank (f i)" m] by (simp add: total_rank_def)

text \<open>Steps of a bounded number that go on as long as somebody is busy.\<close>

locale draining_object =
  fixes step :: "'st \<Rightarrow> 'st \<Rightarrow> bool" and ok :: "'st \<Rightarrow> bool" and work :: "'st \<Rightarrow> nat" and busy :: "'st \<Rightarrow> bool"
  assumes step_ok: "ok s \<Longrightarrow> step s t \<Longrightarrow> ok t"
    and step_work: "ok s \<Longrightarrow> step s t \<Longrightarrow> work t < work s"
    and busy_step: "ok s \<Longrightarrow> busy s \<Longrightarrow> \<exists>t. step s t"
begin

lemma steps_bounded: "(step ^^ k) s t \<Longrightarrow> ok s \<Longrightarrow> ok t \<and> k + work t \<le> work s"
proof (induction k arbitrary: t)
  case (Suc k)
  then obtain u where u: "(step ^^ k) s u" "step u t" by auto
  with Suc.IH [OF u(1) Suc.prems(2)] step_ok [of u t] step_work [of u t] show ?case by fastforce
qed simp

lemma stuck_idle: "(step ^^ k) s t \<Longrightarrow> ok s \<Longrightarrow> \<nexists>u. step t u \<Longrightarrow> \<not> busy t"
  using steps_bounded busy_step by blast

lemma drains: "ok s \<Longrightarrow> \<exists>t. step\<^sup>*\<^sup>* s t \<and> \<not> busy t"
proof (induction "work s" arbitrary: s rule: less_induct)
  case less
  show ?case
  proof (cases "busy s")
    case True
    then obtain u where u: "step s u" using busy_step [OF less.prems] by blast
    from less.hyps [OF step_work [OF less.prems u] step_ok [OF less.prems u]] u show ?thesis
      by (meson converse_rtranclp_into_rtranclp)
  qed auto
qed

end

end
