(* ===== verification/Worker.thy ===== *)
theory Worker
  imports Embedded Guarded
begin

text \<open>
  The threads of an embedded handle: callers that take the mutex \<open>db.mu\<close>, hand a job over
  the unbuffered channel \<open>jobs\<close> and wait on a channel of their own, and the worker that
  alone calls the library.  The steps interleave freely; a caller may come back any number
  of times.
\<close>


section \<open>The system\<close>

datatype 'j wreq = Job 'j | CloseReq

text \<open>Where a caller of \<open>call\<close> or \<open>Close\<close> is.\<close>

datatype ('j, 'r) caller =
    Away
  | Locking "'j wreq"
  | Checking "'j wreq"
  | Sending "'j wreq"
  | Waiting "'j wreq"
  | Leaving "'j wreq" 'r

datatype ('j, 'r) worker =
    Serving
  | Running nat "'j wreq"
  | Replying nat "'j wreq" 'r
  | Exited

text \<open>What a job does to the process, what closing does, and the two fixed results.\<close>

record ('s, 'j, 'r) service =
  sv_exec :: "'j \<Rightarrow> 's \<Rightarrow> 'r \<times> 's"
  sv_shut :: "'s \<Rightarrow> 's"
  sv_closed :: 'r
  sv_nil :: 'r

record ('s, 'j, 'r) wsys =
  ws_callers :: "nat \<Rightarrow> ('j, 'r) caller"
  ws_locked :: bool
  ws_worker :: "('j, 'r) worker"
  ws_done :: "nat \<Rightarrow> 'r option"
  ws_closed :: bool
  ws_proc :: 's
  ws_hist :: "('j wreq \<times> 'r) list"

definition refusal :: "('s, 'j, 'r) service \<Rightarrow> 'j wreq \<Rightarrow> 'r" where
  "refusal sv q = (case q of Job _ \<Rightarrow> sv_closed sv | CloseReq \<Rightarrow> sv_nil sv)"

definition perform :: "('s, 'j, 'r) service \<Rightarrow> 'j wreq \<Rightarrow> 's \<Rightarrow> 'r \<times> 's" where
  "perform sv q p = (case q of Job j \<Rightarrow> sv_exec sv j p | CloseReq \<Rightarrow> (sv_nil sv, sv_shut sv p))"

definition move :: "nat \<Rightarrow> ('j, 'r) caller \<Rightarrow> ('s, 'j, 'r) wsys \<Rightarrow> ('s, 'j, 'r) wsys" where
  "move i c s = s\<lparr>ws_callers := (ws_callers s)(i := c)\<rparr>"

text \<open>The steps.  \<open>ws_hist\<close> records a request with its answer when the answer is settled: by
  the check of \<open>closed\<close>, or by the worker.  The first argument is \<open>True\<close> for a new call.\<close>

inductive worker_step :: "('s, 'j, 'r) service \<Rightarrow> bool \<Rightarrow> ('s, 'j, 'r) wsys \<Rightarrow> ('s, 'j, 'r) wsys \<Rightarrow> bool"
  for sv where
  invoke: "ws_callers s i = Away \<Longrightarrow> worker_step sv True s (move i (Locking q) s)"
| acquire: "ws_callers s i = Locking q \<Longrightarrow> \<not> ws_locked s \<Longrightarrow>
     worker_step sv False s (move i (Checking q) (s\<lparr>ws_locked := True\<rparr>))"
| refuse: "ws_callers s i = Checking q \<Longrightarrow> ws_closed s \<Longrightarrow>
     worker_step sv False s (move i (Leaving q (refusal sv q)) (s\<lparr>ws_hist := ws_hist s @ [(q, refusal sv q)]\<rparr>))"
| admit: "ws_callers s i = Checking q \<Longrightarrow> \<not> ws_closed s \<Longrightarrow>
     worker_step sv False s (move i (Sending q) (s\<lparr>ws_done := (ws_done s)(i := None)\<rparr>))"
| handover: "ws_callers s i = Sending q \<Longrightarrow> ws_worker s = Serving \<Longrightarrow>
     worker_step sv False s (move i (Waiting q) (s\<lparr>ws_worker := Running i q\<rparr>))"
| run: "ws_worker s = Running i q \<Longrightarrow> perform sv q (ws_proc s) = (r, p) \<Longrightarrow>
     worker_step sv False s (s\<lparr>ws_worker := Replying i q r, ws_proc := p, ws_hist := ws_hist s @ [(q, r)]\<rparr>)"
| reply: "ws_worker s = Replying i q r \<Longrightarrow>
     worker_step sv False s (s\<lparr>ws_worker := (if q = CloseReq then Exited else Serving),
       ws_done := (ws_done s)(i := Some r)\<rparr>)"
| receive: "ws_callers s i = Waiting q \<Longrightarrow> ws_done s i = Some r \<Longrightarrow>
     worker_step sv False s (move i (Leaving q r) (s\<lparr>ws_closed := (ws_closed s \<or> q = CloseReq)\<rparr>))"
| leave: "ws_callers s i = Leaving q r \<Longrightarrow> worker_step sv False s (move i Away (s\<lparr>ws_locked := False\<rparr>))"

inductive_cases worker_stepE: "worker_step sv new s t"

definition wsys_init :: "'s \<Rightarrow> ('s, 'j, 'r) wsys" where
  "wsys_init p = \<lparr>ws_callers = (\<lambda>_. Away), ws_locked = False, ws_worker = Serving, ws_done = (\<lambda>_. None),
     ws_closed = False, ws_proc = p, ws_hist = []\<rparr>"

definition any_step :: "('s, 'j, 'r) service \<Rightarrow> ('s, 'j, 'r) wsys \<Rightarrow> ('s, 'j, 'r) wsys \<Rightarrow> bool" where
  "any_step sv s t \<longleftrightarrow> (\<exists>new. worker_step sv new s t)"


section \<open>The invariant\<close>

definition has_lock :: "('s, 'j, 'r) wsys \<Rightarrow> nat \<Rightarrow> bool" where
  "has_lock s i \<longleftrightarrow> (case ws_callers s i of Away \<Rightarrow> False | Locking _ \<Rightarrow> False | _ \<Rightarrow> True)"

lemma move_simps [simp]:
  "ws_callers (move i c s) = (ws_callers s)(i := c)" "ws_locked (move i c s) = ws_locked s"
  "ws_worker (move i c s) = ws_worker s" "ws_done (move i c s) = ws_done s" "ws_closed (move i c s) = ws_closed s"
  "ws_proc (move i c s) = ws_proc s" "ws_hist (move i c s) = ws_hist s"
  by (simp_all add: move_def)

lemma has_lock_move: "has_lock (move i c s) j \<longleftrightarrow>
   (if j = i then (case c of Away \<Rightarrow> False | Locking _ \<Rightarrow> False | _ \<Rightarrow> True) else has_lock s j)"
  by (simp add: has_lock_def)

lemma has_lock_upd [simp]:
  "has_lock (s\<lparr>ws_locked := b\<rparr>) j = has_lock s j" "has_lock (s\<lparr>ws_hist := h\<rparr>) j = has_lock s j"
  "has_lock (s\<lparr>ws_done := d\<rparr>) j = has_lock s j" "has_lock (s\<lparr>ws_worker := w\<rparr>) j = has_lock s j"
  "has_lock (s\<lparr>ws_closed := b\<rparr>) j = has_lock s j" "has_lock (s\<lparr>ws_proc := p\<rparr>) j = has_lock s j"
  by (simp_all add: has_lock_def)

lemma has_lock_simps [simp]:
  "ws_callers s i = Away \<Longrightarrow> \<not> has_lock s i" "ws_callers s i = Locking q \<Longrightarrow> \<not> has_lock s i"
  "ws_callers s i = Checking q \<Longrightarrow> has_lock s i" "ws_callers s i = Sending q \<Longrightarrow> has_lock s i"
  "ws_callers s i = Waiting q \<Longrightarrow> has_lock s i" "ws_callers s i = Leaving q r \<Longrightarrow> has_lock s i"
  by (simp_all add: has_lock_def)

lemma worker_passes:
  assumes "worker_step sv new s t"
  shows "passes (\<lambda>s. \<not> ws_locked s) has_lock s t"
  using assms
proof (cases rule: worker_step.cases)
  case (acquire i q)
  then show ?thesis by (intro passes_enter [where i = i]) (auto simp: has_lock_move)
next
  case (leave i q r)
  then show ?thesis by (intro passes_exit [where i = i]) (auto simp: has_lock_move)
qed (auto intro!: passes_same simp: has_lock_def split: if_split_asm)

lemma worker_guarded:
  "guarded (\<lambda>s. \<not> ws_locked s) has_lock s \<Longrightarrow> worker_step sv new s t \<Longrightarrow> guarded (\<lambda>s. \<not> ws_locked s) has_lock t"
  by (rule guarded_passes [OF _ worker_passes])

interpretation mutex: guarded_object "wsys_init p" "any_step sv" "\<lambda>s. \<not> ws_locked s" has_lock
proof unfold_locales
  show "guarded (\<lambda>s. \<not> ws_locked s) has_lock (wsys_init p)"
    by (simp add: guarded_def wsys_init_def has_lock_def)
qed (auto simp: any_step_def intro: worker_guarded)


text \<open>Between jobs the worker serves, or has exited for good; while a caller waits, the
  worker is at its job or has answered it.\<close>

definition at_rest :: "('s, 'j, 'r) wsys \<Rightarrow> bool" where
  "at_rest s \<longleftrightarrow> ws_worker s = (if ws_closed s then Exited else Serving)"

definition phase_ok :: "('s, 'j, 'r) wsys \<Rightarrow> nat \<Rightarrow> bool" where
  "phase_ok s i \<longleftrightarrow>
     (case ws_callers s i of
        Away \<Rightarrow> True
      | Locking q \<Rightarrow> True
      | Checking q \<Rightarrow> at_rest s
      | Leaving q r \<Rightarrow> at_rest s
      | Sending q \<Rightarrow> at_rest s \<and> \<not> ws_closed s \<and> ws_done s i = None
      | Waiting q \<Rightarrow> \<not> ws_closed s \<and>
          (case ws_done s i of
             None \<Rightarrow> ws_worker s = Running i q \<or> (\<exists>r. ws_worker s = Replying i q r)
           | Some r \<Rightarrow> ws_worker s = (if q = CloseReq then Exited else Serving)))"

lemma phase_ok_move: "j \<noteq> i \<Longrightarrow> phase_ok (move i c s) j = phase_ok s j"
  unfolding phase_ok_def at_rest_def move_simps by simp

definition winv :: "('s, 'j, 'r) wsys \<Rightarrow> bool" where
  "winv s \<longleftrightarrow> guarded (\<lambda>s. \<not> ws_locked s) has_lock s \<and> (\<forall>i. has_lock s i \<longrightarrow> phase_ok s i) \<and>
     (\<not> ws_locked s \<longrightarrow> at_rest s)"

lemma winv_guarded: "winv s \<Longrightarrow> guarded (\<lambda>s. \<not> ws_locked s) has_lock s"
  by (simp add: winv_def)

lemma winv_phase: "winv s \<Longrightarrow> has_lock s i \<Longrightarrow> phase_ok s i"
  by (simp add: winv_def)

lemma winv_unique: "winv s \<Longrightarrow> has_lock s i \<Longrightarrow> has_lock s j \<Longrightarrow> i = j"
  by (auto simp: winv_def guarded_def)

lemma winv_locked: "winv s \<Longrightarrow> has_lock s i \<Longrightarrow> ws_locked s"
  by (auto simp: winv_def guarded_def)

text \<open>A busy worker works for the caller that has the lock.\<close>

lemma busy_caller:
  assumes inv: "winv s" and w: "ws_worker s = Running i q \<or> ws_worker s = Replying i q r"
  shows "ws_callers s i = Waiting q \<and> ws_done s i = None \<and> \<not> ws_closed s"
proof -
  have nr: "\<not> at_rest s" using w by (auto simp: at_rest_def)
  then have "ws_locked s" using inv by (auto simp: winv_def)
  then obtain j where j: "has_lock s j" using winv_guarded [OF inv] by (auto simp: guarded_def)
  from winv_phase [OF inv j] j nr w show ?thesis
    by (auto simp: phase_ok_def has_lock_def split: caller.splits option.splits if_splits)
qed

lemma winv_init: "winv (wsys_init p)"
  by (simp add: winv_def guarded_def wsys_init_def has_lock_def at_rest_def)

text \<open>A step of the holder of the lock: only its own phase is to be checked.\<close>

lemma winv_holder:
  assumes inv: "winv s" and st: "worker_step sv new s t" and i: "has_lock s i" and lk: "ws_locked t"
    and same: "\<And>j. has_lock t j \<Longrightarrow> has_lock s j" and ph: "phase_ok t i"
  shows "winv t"
proof -
  have "j = i" if "has_lock t j" for j using winv_unique [OF inv i same [OF that]] by simp
  with ph worker_guarded [OF winv_guarded [OF inv] st] lk show ?thesis by (auto simp: winv_def)
qed

lemma winv_step:
  assumes inv: "winv s" and st: "worker_step sv new s t"
  shows "winv t"
  using st
proof (cases rule: worker_step.cases)
  case (invoke i q)
  have "phase_ok t j" if "has_lock t j" for j
    using that winv_phase [OF inv, of j] invoke by (auto simp: has_lock_move phase_ok_move split: if_splits)
  moreover have "\<not> ws_locked t \<longrightarrow> at_rest t" using inv invoke by (auto simp: winv_def at_rest_def)
  ultimately show ?thesis using worker_guarded [OF winv_guarded [OF inv] st] by (auto simp: winv_def)
next
  case (acquire i q)
  have "\<not> has_lock s j" for j using inv acquire by (auto simp: winv_def guarded_def)
  then have "phase_ok t j" if "has_lock t j" for j
    using that inv acquire by (auto simp: has_lock_move phase_ok_def at_rest_def winv_def split: if_splits)
  then show ?thesis using worker_guarded [OF winv_guarded [OF inv] st] acquire by (auto simp: winv_def)
next
  case (refuse i q)
  then have h: "has_lock s i" by simp
  show ?thesis
    by (rule winv_holder [OF inv st h])
      (use refuse winv_locked [OF inv h] winv_phase [OF inv h] in
        \<open>auto simp: has_lock_move phase_ok_def at_rest_def split: if_splits\<close>)
next
  case (admit i q)
  then have h: "has_lock s i" by simp
  show ?thesis
    by (rule winv_holder [OF inv st h])
      (use admit winv_locked [OF inv h] winv_phase [OF inv h] in
        \<open>auto simp: has_lock_move phase_ok_def at_rest_def split: if_splits\<close>)
next
  case (handover i q)
  then have h: "has_lock s i" by simp
  show ?thesis
    by (rule winv_holder [OF inv st h])
      (use handover winv_locked [OF inv h] winv_phase [OF inv h] in
        \<open>auto simp: has_lock_move phase_ok_def at_rest_def split: if_splits\<close>)
next
  case (run i q r p)
  note bc = busy_caller [OF inv, of i q r]
  have h: "has_lock s i" using bc run by simp
  show ?thesis
    by (rule winv_holder [OF inv st h])
      (use run bc winv_locked [OF inv h] in \<open>auto simp: phase_ok_def\<close>)
next
  case (reply i q r)
  note bc = busy_caller [OF inv, of i q r]
  have h: "has_lock s i" using bc reply by simp
  show ?thesis
    by (rule winv_holder [OF inv st h])
      (use reply bc winv_locked [OF inv h] in \<open>auto simp: phase_ok_def\<close>)
next
  case (receive i q r)
  then have h: "has_lock s i" by simp
  show ?thesis
    by (rule winv_holder [OF inv st h])
      (use receive winv_locked [OF inv h] winv_phase [OF inv h] in
        \<open>auto simp: has_lock_move phase_ok_def at_rest_def split: if_splits\<close>)
next
  case (leave i q r)
  then have h: "has_lock s i" by simp
  have "\<not> has_lock t j" for j using winv_unique [OF inv h] leave by (auto simp: has_lock_move)
  then show ?thesis
    using worker_guarded [OF winv_guarded [OF inv] st] leave winv_phase [OF inv h]
    by (auto simp: winv_def phase_ok_def at_rest_def)
qed


text \<open>The answer a caller leaves with is the last one of the history, given to its own
  request: answers are never crossed.\<close>

definition newest :: "('q \<times> 'r) list \<Rightarrow> 'q \<Rightarrow> 'r \<Rightarrow> bool" where
  "newest h q r \<longleftrightarrow> h \<noteq> [] \<and> last h = (q, r)"

lemma newest_snoc [simp]: "newest (h @ [(q', r')]) q r \<longleftrightarrow> q = q' \<and> r = r'"
  by (auto simp: newest_def)

definition settled :: "('s, 'j, 'r) wsys \<Rightarrow> bool" where
  "settled s \<longleftrightarrow>
     (\<forall>i q r. ws_worker s = Replying i q r \<longrightarrow> newest (ws_hist s) q r) \<and>
     (\<forall>i q r. ws_callers s i = Waiting q \<and> ws_done s i = Some r \<longrightarrow> newest (ws_hist s) q r) \<and>
     (\<forall>i q r. ws_callers s i = Leaving q r \<longrightarrow> newest (ws_hist s) q r)"

lemma holder_only: "winv s \<Longrightarrow> has_lock s i \<Longrightarrow> j \<noteq> i \<Longrightarrow> \<not> has_lock s j"
  using winv_unique by blast

lemma settled_step:
  assumes inv: "winv s" and se: "settled s" and st: "worker_step sv new s t"
  shows "settled t"
  using st
proof (cases rule: worker_step.cases)
  case (refuse i q)
  then have h: "has_lock s i" by simp
  have "ws_callers s j \<noteq> Waiting q'" "ws_callers s j \<noteq> Leaving q' r'" for j q' r'
    using holder_only [OF inv h, of j] refuse by (cases "j = i"; auto simp: has_lock_def)+
  moreover have "ws_worker s \<noteq> Replying j q' r'" for j q' r'
    using busy_caller [OF inv, of j q' r'] \<open>\<And>j q'. ws_callers s j \<noteq> Waiting q'\<close> by blast
  ultimately show ?thesis using refuse by (auto simp: settled_def)
next
  case (run i q r p)
  note bc = busy_caller [OF inv, of i q r]
  then have h: "has_lock s i" using run by simp
  have "ws_callers s j \<noteq> Leaving q' r'" for j q' r'
    using holder_only [OF inv h, of j] run bc by (cases "j = i") (auto simp: has_lock_def)
  moreover have "ws_done s j = None" if "ws_callers s j = Waiting q'" for j q'
    using holder_only [OF inv h, of j] that run bc by (cases "j = i") (auto simp: has_lock_def)
  ultimately show ?thesis using run by (auto simp: settled_def)
next
  case (reply i q r)
  note bc = busy_caller [OF inv, of i q r]
  with se reply show ?thesis by (auto simp: settled_def)
next
  case (handover i q)
  then have "ws_done s i = None" using winv_phase [OF inv, of i] by (simp add: phase_ok_def)
  with se handover show ?thesis by (auto simp: settled_def)
qed (use se in \<open>auto simp: settled_def split: if_splits\<close>)

lemma settled_init: "settled (wsys_init p)"
  by (simp add: settled_def wsys_init_def)


lemma settled_reachable: "(any_step sv)\<^sup>*\<^sup>* (wsys_init p) s \<Longrightarrow> settled s \<and> winv s"
  by (induction rule: rtranclp_induct)
    (auto simp: settled_init winv_init any_step_def intro: settled_step winv_step)


section \<open>Every call ends\<close>

text \<open>How far a caller and the worker are from having nothing to do.\<close>

definition caller_rank :: "('j, 'r) caller \<Rightarrow> nat" where
  "caller_rank c = (case c of Away \<Rightarrow> 0 | Leaving _ _ \<Rightarrow> 1 | Waiting _ \<Rightarrow> 2 | Sending _ \<Rightarrow> 5
     | Checking _ \<Rightarrow> 6 | Locking _ \<Rightarrow> 7)"

definition worker_rank :: "('j, 'r) worker \<Rightarrow> nat" where
  "worker_rank w = (case w of Running _ _ \<Rightarrow> 2 | Replying _ _ _ \<Rightarrow> 1 | _ \<Rightarrow> 0)"

definition worker_work :: "nat \<Rightarrow> ('s, 'j, 'r) wsys \<Rightarrow> nat" where
  "worker_work n s = total_rank caller_rank n (ws_callers s) + worker_rank (ws_worker s)"

definition only_callers :: "nat \<Rightarrow> ('s, 'j, 'r) wsys \<Rightarrow> bool" where
  "only_callers n s \<longleftrightarrow> idle_from n Away (ws_callers s)"

lemma worker_work_less:
  assumes st: "worker_step sv False s t" and n: "only_callers n s"
  shows "worker_work n t < worker_work n s \<and> only_callers n t"
proof -
  have less: "total_rank caller_rank n ((ws_callers s)(i := c)) + k < total_rank caller_rank n (ws_callers s) \<and>
      idle_from n Away ((ws_callers s)(i := c))"
    if "ws_callers s i \<noteq> Away" "caller_rank c + k < caller_rank (ws_callers s i)" for i c k
    using that n total_rank_less idle_from_upd by (fastforce simp: only_callers_def)
  note less0 = less [where k = 0, simplified]
  from st show ?thesis
  proof (cases rule: worker_step.cases)
    case (handover i q)
    then show ?thesis using less [of i "Waiting q" 2]
      by (simp add: worker_work_def caller_rank_def worker_rank_def only_callers_def)
  qed (use n in \<open>auto simp: worker_work_def caller_rank_def worker_rank_def only_callers_def intro!: less0\<close>)
qed

text \<open>As long as somebody is in a call, somebody can go on.\<close>

lemma holder_moves:
  assumes inv: "winv s" and h: "has_lock s i"
  shows "\<exists>t. worker_step sv False s t"
proof -
  note ph = winv_phase [OF inv h]
  show ?thesis
  proof (cases "ws_callers s i")
    case (Waiting q)
    show ?thesis
    proof (cases "ws_done s i")
      case None
      with ph Waiting have "ws_worker s = Running i q \<or> (\<exists>r. ws_worker s = Replying i q r)"
        by (simp add: phase_ok_def)
      then show ?thesis using worker_step.run [of s i q sv] worker_step.reply [of s i q _ sv]
        by (cases "perform sv q (ws_proc s)") blast
    next
      case (Some r)
      show ?thesis by (rule exI, rule worker_step.receive [OF Waiting Some])
    qed
  next
    case (Checking q)
    then show ?thesis using worker_step.refuse worker_step.admit by blast
  next
    case (Sending q)
    with ph have "ws_worker s = Serving" by (simp add: phase_ok_def at_rest_def)
    with Sending show ?thesis using worker_step.handover by blast
  next
    case (Leaving q r)
    show ?thesis by (rule exI, rule worker_step.leave [OF Leaving])
  qed (use h in auto)
qed

lemma call_moves:
  assumes inv: "winv s" and i: "ws_callers s i \<noteq> Away"
  shows "\<exists>t. worker_step sv False s t"
proof (cases "ws_locked s")
  case True
  then obtain j where "has_lock s j" using winv_guarded [OF inv] by (auto simp: guarded_def)
  from holder_moves [OF inv this] show ?thesis .
next
  case False
  then have "\<not> has_lock s i" using winv_locked [OF inv] by blast
  with i obtain q where "ws_callers s i = Locking q" by (cases "ws_callers s i") (auto simp: has_lock_def)
  with False show ?thesis using worker_step.acquire by blast
qed

definition worker_ready :: "nat \<Rightarrow> ('s, 'j, 'r) wsys \<Rightarrow> bool" where
  "worker_ready n s \<longleftrightarrow> winv s \<and> only_callers n s"

interpretation calls: draining_object "worker_step sv False" "worker_ready n" "worker_work n"
  "\<lambda>s. \<exists>i. ws_callers s i \<noteq> Away"
  by unfold_locales
    (auto simp: worker_ready_def intro: winv_step dest: worker_work_less call_moves)

lemma worker_work_bound: "worker_work n s \<le> 7 * n + 2"
proof -
  have "total_rank caller_rank n (ws_callers s) \<le> n * 7"
    by (rule total_rank_le) (simp add: caller_rank_def split: caller.split)
  moreover have "worker_rank (ws_worker s) \<le> 2" by (simp add: worker_rank_def split: worker.split)
  ultimately show ?thesis by (simp add: worker_work_def)
qed


section \<open>The sequential handle\<close>

text \<open>What the callers see: a process and whether the handle is closed.\<close>

definition db_spec :: "('s, 'j, 'r) service \<Rightarrow> 's \<times> bool \<Rightarrow> 'j wreq \<Rightarrow> 'r \<times> 's \<times> bool" where
  "db_spec sv a q =
     (if snd a then (refusal sv q, a)
      else let (r, p) = perform sv q (fst a) in (r, (p, q = CloseReq)))"

definition db_abs :: "('s, 'j, 'r) wsys \<Rightarrow> 's \<times> bool" where
  "db_abs s = (ws_proc s, case ws_worker s of Exited \<Rightarrow> True | Replying _ q _ \<Rightarrow> q = CloseReq | _ \<Rightarrow> False)"

lemma db_abs_init: "db_abs (wsys_init p) = (p, False)"
  by (simp add: db_abs_def wsys_init_def)

lemma worker_history:
  assumes inv: "winv s" and st: "worker_step sv new s t"
  shows "(ws_hist t = ws_hist s \<and> db_abs t = db_abs s) \<or>
    (\<exists>q r. ws_hist t = ws_hist s @ [(q, r)] \<and> db_spec sv (db_abs s) q = (r, db_abs t))"
  using st
proof (cases rule: worker_step.cases)
  case (refuse i q)
  then have "at_rest s" using winv_phase [OF inv, of i] by (simp add: phase_ok_def)
  with refuse have "ws_worker s = Exited" by (simp add: at_rest_def)
  with refuse show ?thesis by (auto simp: db_abs_def db_spec_def)
next
  case (handover i q)
  then show ?thesis by (auto simp: db_abs_def)
next
  case (run i q r p)
  then show ?thesis by (auto simp: db_abs_def db_spec_def)
next
  case (reply i q r)
  then show ?thesis by (auto simp: db_abs_def)
qed (auto simp: db_abs_def)

interpretation handle: linear_object "wsys_init p" "any_step sv" winv ws_hist db_abs "db_spec sv"
proof unfold_locales
  show "winv (wsys_init p)" by (rule winv_init)
  show "ws_hist (wsys_init p) = []" by (simp add: wsys_init_def)
qed (auto simp: any_step_def intro: winv_step dest: worker_history)

text \<open>The handle of the binding: its jobs, and the answers of \<open>call\<close> and \<open>Close\<close>.\<close>

type_synonym ('s, 'a) db_sys = "('s process, ('s, 'a) job, (go_error + 'a) option) wsys"

definition db_service :: "'s abi \<Rightarrow> nat \<Rightarrow> ('s process, ('s, 'a) job, (go_error + 'a) option) service" where
  "db_service A raw = \<lparr>sv_exec = (\<lambda>j p. let (r, p1) = j raw p in (Some r, p1)),
     sv_shut = (\<lambda>p. p\<lparr>lib := abi_close A raw (lib p)\<rparr>),
     sv_closed = Some (Inl ErrClosed), sv_nil = None\<rparr>"

definition handle_spec ::
  "'s abi \<Rightarrow> DB \<times> 's process \<Rightarrow> ('s, 'a) job wreq \<Rightarrow> (go_error + 'a) option \<times> DB \<times> 's process" where
  "handle_spec A a q =
     (case q of
        Job j \<Rightarrow> (let (r, p1) = call (Some (fst a)) j (snd a) in (Some r, fst a, p1))
      | CloseReq \<Rightarrow> (let (h, p1) = DB_Close A (Some (fst a)) (snd a) in (None, the h, p1)))"

definition as_handle :: "nat \<Rightarrow> 's process \<times> bool \<Rightarrow> DB \<times> 's process" where
  "as_handle raw a = (\<lparr>db_raw = raw, db_closed = snd a\<rparr>, fst a)"

lemma handle_spec_step:
  "handle_spec A (as_handle raw a) q = (let (r, b) = db_spec (db_service A raw) a q in (r, as_handle raw b))"
  by (cases q; cases a)
    (auto simp: handle_spec_def as_handle_def db_spec_def db_service_def perform_def refusal_def call_def
      DB_Close_def Let_def split: prod.splits)

lemma handle_spec_run:
  "run_spec (handle_spec A) (as_handle raw a) qs =
     (let (rs, b) = run_spec (db_spec (db_service A raw)) a qs in (rs, as_handle raw b))"
  by (rule run_spec_image) (rule handle_spec_step)

end
