(* ===== verification/Gate.thy ===== *)
theory Gate
  imports Client Guarded
begin

text \<open>
  The gate of the TCP client: a channel that holds one token.  A caller selects between its
  context and the token, checks context and \<open>closed\<close> with the token in hand, runs its
  operation, and puts the token back; \<open>Close\<close> waits for the token alone.  Callers
  interleave freely, and contexts end at any time.
\<close>


section \<open>The system\<close>

datatype 'j greq = Operation 'j | CloseOp

datatype ('j, 'r) gcaller =
    Out
  | Selecting 'j
  | Entered 'j
  | Checked 'j
  | Working 'j
  | CloseWaiting
  | CloseIn
  | Releasing 'r
  | Returned 'r

text \<open>What an operation and \<open>Close\<close> do to the client, whether it is closed, and the
  answers that are an error and nil.\<close>

record ('s, 'j, 'r) guarded_client =
  gs_exec :: "'j \<Rightarrow> 's \<Rightarrow> 'r \<times> 's"
  gs_close :: "'s \<Rightarrow> 's"
  gs_closed :: "'s \<Rightarrow> bool"
  gs_err :: "go_error \<Rightarrow> 'r"
  gs_nil :: 'r

text \<open>\<open>g_token\<close>: the token is in the channel; \<open>g_ctx i\<close> is the error of the context of the
  call of \<open>i\<close>, once it is done.\<close>

record ('s, 'j, 'r) gsys =
  g_callers :: "nat \<Rightarrow> ('j, 'r) gcaller"
  g_token :: bool
  g_ctx :: "nat \<Rightarrow> go_error option"
  g_state :: 's
  g_hist :: "('j greq \<times> 'r) list"

definition gmove :: "nat \<Rightarrow> ('j, 'r) gcaller \<Rightarrow> ('s, 'j, 'r) gsys \<Rightarrow> ('s, 'j, 'r) gsys" where
  "gmove i c s = s\<lparr>g_callers := (g_callers s)(i := c)\<rparr>"

definition answered :: "'j greq \<Rightarrow> 'r \<Rightarrow> ('s, 'j, 'r) gsys \<Rightarrow> ('s, 'j, 'r) gsys" where
  "answered q r s = s\<lparr>g_hist := g_hist s @ [(q, r)]\<rparr>"

text \<open>The first argument is \<open>True\<close> for the steps of the environment: new calls and ends of
  contexts.  Where both branches of the \<open>select\<close> are ready, either is taken.\<close>

inductive gate_step :: "('s, 'j, 'r) guarded_client \<Rightarrow> bool \<Rightarrow> ('s, 'j, 'r) gsys \<Rightarrow> ('s, 'j, 'r) gsys \<Rightarrow> bool"
  for sv where
  g_call: "g_callers s i = Out \<Longrightarrow> gate_step sv True s (gmove i (Selecting j) (s\<lparr>g_ctx := (g_ctx s)(i := x)\<rparr>))"
| g_closing: "g_callers s i = Out \<Longrightarrow> gate_step sv True s (gmove i CloseWaiting s)"
| g_cancel: "g_ctx s i = None \<Longrightarrow> gate_step sv True s (s\<lparr>g_ctx := (g_ctx s)(i := Some e)\<rparr>)"
| g_giveup: "g_callers s i = Selecting j \<Longrightarrow> g_ctx s i = Some e \<Longrightarrow>
     gate_step sv False s (gmove i (Returned (gs_err sv e)) s)"
| g_take: "g_callers s i = Selecting j \<Longrightarrow> g_token s \<Longrightarrow>
     gate_step sv False s (gmove i (Entered j) (s\<lparr>g_token := False\<rparr>))"
| g_late: "g_callers s i = Entered j \<Longrightarrow> g_ctx s i = Some e \<Longrightarrow>
     gate_step sv False s (gmove i (Releasing (gs_err sv e)) s)"
| g_alive: "g_callers s i = Entered j \<Longrightarrow> g_ctx s i = None \<Longrightarrow> gate_step sv False s (gmove i (Checked j) s)"
| g_refuse: "g_callers s i = Checked j \<Longrightarrow> gs_closed sv (g_state s) \<Longrightarrow>
     gate_step sv False s (gmove i (Releasing (gs_err sv ErrClosed)) (answered (Operation j) (gs_err sv ErrClosed) s))"
| g_admit: "g_callers s i = Checked j \<Longrightarrow> \<not> gs_closed sv (g_state s) \<Longrightarrow> gate_step sv False s (gmove i (Working j) s)"
| g_work: "g_callers s i = Working j \<Longrightarrow> gs_exec sv j (g_state s) = (r, a) \<Longrightarrow>
     gate_step sv False s (gmove i (Releasing r) (answered (Operation j) r (s\<lparr>g_state := a\<rparr>)))"
| g_close_take: "g_callers s i = CloseWaiting \<Longrightarrow> g_token s \<Longrightarrow>
     gate_step sv False s (gmove i CloseIn (s\<lparr>g_token := False\<rparr>))"
| g_close: "g_callers s i = CloseIn \<Longrightarrow>
     gate_step sv False s (gmove i (Releasing (gs_nil sv)) (answered CloseOp (gs_nil sv) (s\<lparr>g_state := gs_close sv (g_state s)\<rparr>)))"
| g_release: "g_callers s i = Releasing r \<Longrightarrow> \<not> g_token s \<Longrightarrow>
     gate_step sv False s (gmove i (Returned r) (s\<lparr>g_token := True\<rparr>))"
| g_return: "g_callers s i = Returned r \<Longrightarrow> gate_step sv False s (gmove i Out s)"

inductive_cases gate_stepE: "gate_step sv new s t"

definition gsys_init :: "'s \<Rightarrow> ('s, 'j, 'r) gsys" where
  "gsys_init a = \<lparr>g_callers = (\<lambda>_. Out), g_token = True, g_ctx = (\<lambda>_. None), g_state = a, g_hist = []\<rparr>"

definition gate_any :: "('s, 'j, 'r) guarded_client \<Rightarrow> ('s, 'j, 'r) gsys \<Rightarrow> ('s, 'j, 'r) gsys \<Rightarrow> bool" where
  "gate_any sv s t \<longleftrightarrow> (\<exists>new. gate_step sv new s t)"


section \<open>Mutual exclusion\<close>

definition in_gate :: "('j, 'r) gcaller \<Rightarrow> bool" where
  "in_gate c = (case c of Entered _ \<Rightarrow> True | Checked _ \<Rightarrow> True | Working _ \<Rightarrow> True | CloseIn \<Rightarrow> True
     | Releasing _ \<Rightarrow> True | _ \<Rightarrow> False)"

lemma in_gate_simps [simp]:
  "\<not> in_gate Out" "\<not> in_gate (Selecting j)" "in_gate (Entered j)" "in_gate (Checked j)" "in_gate (Working j)"
  "\<not> in_gate CloseWaiting" "in_gate CloseIn" "in_gate (Releasing r)" "\<not> in_gate (Returned r)"
  by (simp_all add: in_gate_def)

definition holds_token :: "('s, 'j, 'r) gsys \<Rightarrow> nat \<Rightarrow> bool" where
  "holds_token s i \<longleftrightarrow> in_gate (g_callers s i)"

lemma gmove_simps [simp]:
  "g_callers (gmove i c s) = (g_callers s)(i := c)" "g_token (gmove i c s) = g_token s"
  "g_ctx (gmove i c s) = g_ctx s" "g_state (gmove i c s) = g_state s" "g_hist (gmove i c s) = g_hist s"
  by (simp_all add: gmove_def)

lemma answered_simps [simp]:
  "g_callers (answered q r s) = g_callers s" "g_token (answered q r s) = g_token s"
  "g_ctx (answered q r s) = g_ctx s" "g_state (answered q r s) = g_state s" "g_hist (answered q r s) = g_hist s @ [(q, r)]"
  by (simp_all add: answered_def)

lemma gate_passes:
  assumes "gate_step sv new s t"
  shows "passes g_token holds_token s t"
  using assms
proof (cases rule: gate_step.cases)
  case (g_take i j)
  then show ?thesis by (intro passes_enter [where i = i]) (auto simp: holds_token_def)
next
  case (g_close_take i)
  then show ?thesis by (intro passes_enter [where i = i]) (auto simp: holds_token_def)
next
  case (g_release i r)
  then show ?thesis by (intro passes_exit [where i = i]) (auto simp: holds_token_def)
qed (auto intro!: passes_same simp: holds_token_def split: if_split_asm)

interpretation gate: guarded_object "gsys_init a" "gate_any sv" g_token holds_token
proof unfold_locales
  show "guarded g_token holds_token (gsys_init a)"
    by (simp add: guarded_def gsys_init_def holds_token_def)
qed (auto simp: gate_any_def intro: guarded_passes gate_passes)


section \<open>Sequential histories\<close>

definition gate_spec :: "('s, 'j, 'r) guarded_client \<Rightarrow> 's \<Rightarrow> 'j greq \<Rightarrow> 'r \<times> 's" where
  "gate_spec sv a q =
     (case q of Operation j \<Rightarrow> if gs_closed sv a then (gs_err sv ErrClosed, a) else gs_exec sv j a
      | CloseOp \<Rightarrow> (gs_nil sv, gs_close sv a))"

text \<open>Only \<open>Close\<close> closes, so an operation that was admitted still finds the client open.\<close>

definition gate_inv :: "('s, 'j, 'r) guarded_client \<Rightarrow> ('s, 'j, 'r) gsys \<Rightarrow> bool" where
  "gate_inv sv s \<longleftrightarrow> guarded g_token holds_token s \<and> (\<forall>i j. g_callers s i = Working j \<longrightarrow> \<not> gs_closed sv (g_state s))"

lemma gate_inv_init: "gate_inv sv (gsys_init a)"
  using gate.init_guarded by (simp add: gate_inv_def) (simp add: gsys_init_def)

lemma gate_inv_unique: "gate_inv sv s \<Longrightarrow> holds_token s i \<Longrightarrow> holds_token s j \<Longrightarrow> i = j"
  by (auto simp: gate_inv_def guarded_def)

lemma gate_inv_step:
  assumes inv: "gate_inv sv s" and st: "gate_step sv new s t"
  shows "gate_inv sv t"
proof -
  have g: "guarded g_token holds_token t"
    using inv gate_passes [OF st] by (auto simp: gate_inv_def intro: guarded_passes)
  have alone: "g_callers s k \<noteq> Working j" if "holds_token s i" "k \<noteq> i" for i k j
    using gate_inv_unique [OF inv that(1), of k] that(2) by (auto simp: holds_token_def)
  from st have "\<forall>i j. g_callers t i = Working j \<longrightarrow> \<not> gs_closed sv (g_state t)"
  proof (cases rule: gate_step.cases)
    case (g_work i j r a)
    with alone [of i] show ?thesis by (auto simp: holds_token_def split: if_splits)
  next
    case (g_close i)
    with alone [of i] show ?thesis by (auto simp: holds_token_def split: if_splits)
  qed (use inv in \<open>auto simp: gate_inv_def split: if_splits\<close>)
  with g show ?thesis by (simp add: gate_inv_def)
qed

lemma gate_history:
  assumes inv: "gate_inv sv s" and st: "gate_step sv new s t"
  shows "(g_hist t = g_hist s \<and> g_state t = g_state s) \<or>
    (\<exists>q r. g_hist t = g_hist s @ [(q, r)] \<and> gate_spec sv (g_state s) q = (r, g_state t))"
  using st
proof (cases rule: gate_step.cases)
  case (g_work i j r a)
  with inv show ?thesis by (auto simp: gate_spec_def gate_inv_def)
qed (auto simp: gate_spec_def)

interpretation served: linear_object "gsys_init a" "gate_any sv" "gate_inv sv" g_hist g_state "gate_spec sv"
proof unfold_locales
  show "gate_inv sv (gsys_init a)" by (rule gate_inv_init)
  show "g_hist (gsys_init a) = []" by (simp add: gsys_init_def)
qed (auto simp: gate_any_def intro: gate_inv_step dest: gate_history)


section \<open>Every call ends\<close>

definition gate_rank :: "('j, 'r) gcaller \<Rightarrow> nat" where
  "gate_rank c = (case c of Out \<Rightarrow> 0 | Returned _ \<Rightarrow> 1 | Releasing _ \<Rightarrow> 2 | Working _ \<Rightarrow> 3 | CloseIn \<Rightarrow> 3
     | Checked _ \<Rightarrow> 4 | CloseWaiting \<Rightarrow> 4 | Entered _ \<Rightarrow> 5 | Selecting _ \<Rightarrow> 6)"

definition gate_work :: "nat \<Rightarrow> ('s, 'j, 'r) gsys \<Rightarrow> nat" where
  "gate_work n s = total_rank gate_rank n (g_callers s)"

definition gate_ready :: "('s, 'j, 'r) guarded_client \<Rightarrow> nat \<Rightarrow> ('s, 'j, 'r) gsys \<Rightarrow> bool" where
  "gate_ready sv n s \<longleftrightarrow> gate_inv sv s \<and> idle_from n Out (g_callers s)"

lemma gate_moves_caller:
  "gate_step sv False s t \<Longrightarrow> \<exists>i c. g_callers t = (g_callers s)(i := c) \<and> g_callers s i \<noteq> Out \<and>
     gate_rank c < gate_rank (g_callers s i)"
  by (erule gate_step.cases) (auto simp: gate_rank_def intro!: exI)

lemma gate_work_less:
  assumes "gate_step sv False s t" "idle_from n Out (g_callers s)"
  shows "gate_work n t < gate_work n s \<and> idle_from n Out (g_callers t)"
proof -
  obtain i c where "g_callers t = (g_callers s)(i := c)" "g_callers s i \<noteq> Out" "gate_rank c < gate_rank (g_callers s i)"
    using gate_moves_caller [OF assms(1)] by blast
  with total_rank_less [of n Out "g_callers s" i gate_rank c 0] idle_from_upd [OF assms(2)] assms(2) show ?thesis
    by (simp add: gate_work_def)
qed

lemma gate_moves:
  assumes inv: "gate_inv sv s" and i: "g_callers s i \<noteq> Out"
  shows "\<exists>t. gate_step sv False s t"
proof (cases "g_token s")
  case True
  then have "\<not> holds_token s i" using inv by (auto simp: gate_inv_def guarded_def)
  with i True g_take g_close_take g_return show ?thesis
    by (cases "g_callers s i") (auto simp: holds_token_def intro: gate_step.intros)
next
  case False
  then obtain k where k: "holds_token s k" using inv by (auto simp: gate_inv_def guarded_def)
  show ?thesis
  proof (cases "g_callers s k")
    case (Entered j)
    then show ?thesis by (cases "g_ctx s k") (auto intro: gate_step.intros)
  next
    case (Checked j)
    then show ?thesis by (cases "gs_closed sv (g_state s)") (auto intro: gate_step.intros)
  next
    case (Working j)
    then show ?thesis by (cases "gs_exec sv j (g_state s)") (auto intro: gate_step.intros)
  qed (use k False in \<open>auto simp: holds_token_def intro: gate_step.intros\<close>)
qed

interpretation gate_calls: draining_object "gate_step sv False" "gate_ready sv n" "gate_work n"
  "\<lambda>s. \<exists>i. g_callers s i \<noteq> Out"
  by unfold_locales
    (auto simp: gate_ready_def intro: gate_inv_step dest: gate_work_less gate_moves)

lemma gate_work_bound: "gate_work n s \<le> 6 * n"
proof -
  have "total_rank gate_rank n (g_callers s) \<le> n * 6"
    by (rule total_rank_le) (simp add: gate_rank_def split: gcaller.split)
  then show ?thesis by (simp add: gate_work_def)
qed


section \<open>Leaving without the token\<close>

text \<open>A call that waits can always give up once its context is done, whoever has the token,
  and giving up leaves client, token and history alone.\<close>

lemma giveup:
  "g_callers s i = Selecting j \<Longrightarrow> g_ctx s i = Some e \<Longrightarrow>
     gate_step sv False s (gmove i (Returned (gs_err sv e)) s)"
  by (rule g_giveup)


section \<open>Closed for good\<close>

text \<open>When operations do not reopen the client, a closed client stays closed and answers
  every operation with \<open>ErrClosed\<close>.\<close>

definition stays_closed :: "('s, 'j, 'r) guarded_client \<Rightarrow> bool" where
  "stays_closed sv \<longleftrightarrow> (\<forall>a. gs_closed sv (gs_close sv a))"

lemma gate_closed_step:
  assumes "stays_closed sv" "gate_inv sv s" "gate_step sv new s t" "gs_closed sv (g_state s)"
  shows "gs_closed sv (g_state t) \<and> (\<exists>qs. g_hist t = g_hist s @ qs \<and>
    (\<forall>j r. (Operation j, r) \<in> set qs \<longrightarrow> r = gs_err sv ErrClosed))"
  using assms(3)
proof (cases rule: gate_step.cases)
  case (g_work i j r a)
  with assms show ?thesis by (auto simp: gate_inv_def)
qed (use assms(1,4) in \<open>auto simp: stays_closed_def\<close>)

lemma gate_closed_run:
  assumes sc: "stays_closed sv" and run: "(gate_any sv)\<^sup>*\<^sup>* s t" and "gate_inv sv s" "gs_closed sv (g_state s)"
  shows "gate_inv sv t \<and> gs_closed sv (g_state t) \<and> (\<exists>qs. g_hist t = g_hist s @ qs \<and>
    (\<forall>j r. (Operation j, r) \<in> set qs \<longrightarrow> r = gs_err sv ErrClosed))"
  using run
proof (induction rule: rtranclp_induct)
  case base
  with assms show ?case by auto
next
  case (step u t)
  from step(2) obtain new where st: "gate_step sv new u t" by (auto simp: gate_any_def)
  from step(3) obtain qs where qs: "g_hist u = g_hist s @ qs" "\<forall>j r. (Operation j, r) \<in> set qs \<longrightarrow> r = gs_err sv ErrClosed"
    by blast
  from gate_closed_step [OF sc _ st] step(3) obtain ps where ps: "gs_closed sv (g_state t)" "g_hist t = g_hist u @ ps"
    "\<forall>j r. (Operation j, r) \<in> set ps \<longrightarrow> r = gs_err sv ErrClosed" by blast
  have "g_hist t = g_hist s @ (qs @ ps)" "\<forall>j r. (Operation j, r) \<in> set (qs @ ps) \<longrightarrow> r = gs_err sv ErrClosed"
    using qs ps by auto
  with ps gate_inv_step [OF _ st] step(3) show ?case by blast
qed


section \<open>The TCP client behind its gate\<close>

text \<open>An operation is what runs between \<open>lock\<close> and \<open>unlock\<close>: a function of the client and
  the world.\<close>

type_synonym 'a gate_job = "client \<times> world \<Rightarrow> (go_error + 'a) option \<times> client \<times> world"
type_synonym 'a client_gsys = "(client \<times> world, 'a gate_job, (go_error + 'a) option) gsys"

definition client_gate :: "(client \<times> world, 'a gate_job, (go_error + 'a) option) guarded_client" where
  "client_gate = \<lparr>gs_exec = (\<lambda>j a. j a),
     gs_close = (\<lambda>(c, w). let (h, w1) = Close (Some c) w in (the h, w1)),
     gs_closed = (\<lambda>(c, w). cl_closed c),
     gs_err = (\<lambda>e. Some (Inl e)), gs_nil = None\<rparr>"

lemma client_gate_closed: "stays_closed client_gate"
  by (auto simp: stays_closed_def client_gate_def Close_def Let_def split: prod.splits)

text \<open>What runs between \<open>lock\<close> and \<open>unlock\<close> as a request of the gate.\<close>

definition locked :: "(client \<Rightarrow> world \<Rightarrow> (go_error + 'a) \<times> client \<times> world) \<Rightarrow> client \<times> world \<Rightarrow> (go_error + 'a) option \<times> client \<times> world" where
  "locked f a = (let (r, c, w) = f (fst a) (snd a) in (Some r, c, w))"

text \<open>An operation whose context is not done is one request of the sequential client.\<close>

lemma gate_spec_locked:
  "gate_spec client_gate (c, w) (Operation (locked f)) =
     (if cl_closed c then (Some (Inl ErrClosed), c, w) else let (r, c1, w1) = f c w in (Some r, c1, w1))"
  by (simp add: gate_spec_def client_gate_def locked_def)

lemma PutCodec_gate:
  assumes "put_input_ok c ring data cd" "ctx_Err cx w = (None, w1)"
  shows "PutCodec C (Some cx) (Some c) ring data cd w =
    (case gate_spec client_gate (c, w1) (Operation (locked (put_locked C cx ring data cd))) of
       (r, c2, w2) \<Rightarrow> (the r, Some c2, w2))"
  unfolding gate_spec_locked
  by (cases "put_locked C cx ring data cd c w1") (simp add: PutCodec_def lock_def assms)

lemma readOperation_gate:
  assumes "ctx_Err cx w = (None, w1)"
  shows "readOperation (Some cx) (Some c) f w =
    (case gate_spec client_gate (c, w1) (Operation (locked (attempts cx (f cx) 2))) of
       (r, c2, w2) \<Rightarrow> (the r, Some c2, w2))"
  unfolding gate_spec_locked
  by (cases "attempts cx (f cx) 2 c w1") (simp add: readOperation_def lock_def assms)

lemma Close_gate:
  "Close (Some c) w = (case gate_spec client_gate (c, w) CloseOp of (r, c2, w2) \<Rightarrow> (Some c2, w2))"
  by (cases "drop_conns c w") (simp add: gate_spec_def client_gate_def Close_def)

end
