(* ===== verification/Cancellation.thy ===== *)
theory Cancellation
  imports Guarded
begin

text \<open>
  Cancellation of an exchange (\<open>exchange\<close> of \<open>wire.go\<close>): the callback that
  \<open>context.AfterFunc\<close> registers runs in a goroutine of its own and moves the deadlines of
  the socket into the past, while the exchange sets them, writes, reads, and in the end
  stops the callback or waits for it.  Only what the two share is kept: the context, the
  deadlines, and where each of them is.
\<close>


section \<open>The steps\<close>

datatype xphase = XStart | XArmWrite | XRegister | XLoop | XInWrite | XArmRead | XCheck | XReading
  | XStopping | XWaiting | XReturned

text \<open>\<open>CbWaiting\<close>: registered; \<open>CbStarted\<close>: its goroutine runs; \<open>CbSet\<close>: it has moved the
  deadlines; \<open>CbFinished\<close>: it has closed \<open>done\<close>; \<open>CbStopped\<close>: it will never run.\<close>

datatype xcallback = CbNone | CbWaiting | CbStarted | CbSet | CbFinished | CbStopped

record xsys =
  x_phase :: xphase
  x_cb :: xcallback
  x_ctx :: bool
  x_left :: nat
  x_wr_past :: bool
  x_rd_past :: bool

text \<open>The first argument is \<open>True\<close> for what the driver does not do: the end of the context,
  and what the network does to a pending write or read.\<close>

inductive xstep :: "bool \<Rightarrow> xsys \<Rightarrow> xsys \<Rightarrow> bool" where
  x_cancel: "\<not> x_ctx s \<Longrightarrow> xstep True s (s\<lparr>x_ctx := True\<rparr>)"
| x_begin_done: "x_phase s = XStart \<Longrightarrow> x_ctx s \<Longrightarrow> xstep False s (s\<lparr>x_phase := XReturned\<rparr>)"
| x_begin_invalid: "x_phase s = XStart \<Longrightarrow> \<not> x_ctx s \<Longrightarrow> xstep False s (s\<lparr>x_phase := XReturned\<rparr>)"
| x_begin: "x_phase s = XStart \<Longrightarrow> \<not> x_ctx s \<Longrightarrow> xstep False s (s\<lparr>x_phase := XArmWrite\<rparr>)"
| x_arm_write: "x_phase s = XArmWrite \<Longrightarrow> xstep False s (s\<lparr>x_phase := XRegister, x_wr_past := False\<rparr>)"
| x_arm_write_fails: "x_phase s = XArmWrite \<Longrightarrow> xstep False s (s\<lparr>x_phase := XReturned\<rparr>)"
| x_register: "x_phase s = XRegister \<Longrightarrow> xstep False s (s\<lparr>x_phase := XLoop, x_cb := CbWaiting\<rparr>)"
| x_loop_end: "x_phase s = XLoop \<Longrightarrow> x_left s = 0 \<Longrightarrow> xstep False s (s\<lparr>x_phase := XArmRead\<rparr>)"
| x_loop_done: "x_phase s = XLoop \<Longrightarrow> 0 < x_left s \<Longrightarrow> x_ctx s \<Longrightarrow> xstep False s (s\<lparr>x_phase := XStopping\<rparr>)"
| x_loop_write: "x_phase s = XLoop \<Longrightarrow> 0 < x_left s \<Longrightarrow> \<not> x_ctx s \<Longrightarrow> xstep False s (s\<lparr>x_phase := XInWrite\<rparr>)"
| x_written: "x_phase s = XInWrite \<Longrightarrow> 0 < n \<Longrightarrow> n \<le> x_left s \<Longrightarrow>
     xstep True s (s\<lparr>x_phase := XLoop, x_left := x_left s - n\<rparr>)"
| x_write_fails: "x_phase s = XInWrite \<Longrightarrow> xstep True s (s\<lparr>x_phase := XStopping\<rparr>)"
| x_write_past: "x_phase s = XInWrite \<Longrightarrow> x_wr_past s \<Longrightarrow> xstep False s (s\<lparr>x_phase := XStopping\<rparr>)"
| x_arm_read: "x_phase s = XArmRead \<Longrightarrow> xstep False s (s\<lparr>x_phase := XCheck, x_rd_past := False\<rparr>)"
| x_arm_read_fails: "x_phase s = XArmRead \<Longrightarrow> xstep False s (s\<lparr>x_phase := XStopping\<rparr>)"
| x_check_done: "x_phase s = XCheck \<Longrightarrow> x_ctx s \<Longrightarrow> xstep False s (s\<lparr>x_phase := XStopping\<rparr>)"
| x_check: "x_phase s = XCheck \<Longrightarrow> \<not> x_ctx s \<Longrightarrow> xstep False s (s\<lparr>x_phase := XReading\<rparr>)"
| x_read_ends: "x_phase s = XReading \<Longrightarrow> xstep True s (s\<lparr>x_phase := XStopping\<rparr>)"
| x_read_past: "x_phase s = XReading \<Longrightarrow> x_rd_past s \<Longrightarrow> xstep False s (s\<lparr>x_phase := XStopping\<rparr>)"
| x_stop: "x_phase s = XStopping \<Longrightarrow> x_cb s = CbWaiting \<Longrightarrow> xstep False s (s\<lparr>x_phase := XReturned, x_cb := CbStopped\<rparr>)"
| x_stop_late: "x_phase s = XStopping \<Longrightarrow> x_cb s \<in> {CbStarted, CbSet, CbFinished} \<Longrightarrow> xstep False s (s\<lparr>x_phase := XWaiting\<rparr>)"
| x_wait: "x_phase s = XWaiting \<Longrightarrow> x_cb s = CbFinished \<Longrightarrow> xstep False s (s\<lparr>x_phase := XReturned\<rparr>)"
| cb_start: "x_ctx s \<Longrightarrow> x_cb s = CbWaiting \<Longrightarrow> xstep False s (s\<lparr>x_cb := CbStarted\<rparr>)"
| cb_set: "x_cb s = CbStarted \<Longrightarrow> xstep False s (s\<lparr>x_cb := CbSet, x_wr_past := True, x_rd_past := True\<rparr>)"
| cb_finish: "x_cb s = CbSet \<Longrightarrow> xstep False s (s\<lparr>x_cb := CbFinished\<rparr>)"

inductive_cases xstepE: "xstep new s t"

definition x_any :: "xsys \<Rightarrow> xsys \<Rightarrow> bool" where
  "x_any s t \<longleftrightarrow> (\<exists>new. xstep new s t)"

text \<open>The deadlines may lie in the past already, from a cancelled exchange before.\<close>

definition x_init :: "bool \<Rightarrow> nat \<Rightarrow> bool \<Rightarrow> bool \<Rightarrow> xsys" where
  "x_init ctx n wr rd = \<lparr>x_phase = XStart, x_cb = CbNone, x_ctx = ctx, x_left = n, x_wr_past = wr, x_rd_past = rd\<rparr>"


section \<open>The invariant\<close>

definition cb_ran :: "xcallback \<Rightarrow> bool" where
  "cb_ran c \<longleftrightarrow> c = CbSet \<or> c = CbFinished"

definition xinv :: "xsys \<Rightarrow> bool" where
  "xinv s \<longleftrightarrow>
     (x_cb s \<in> {CbStarted, CbSet, CbFinished} \<longrightarrow> x_ctx s) \<and>
     (case x_phase s of
        XStart \<Rightarrow> x_cb s = CbNone
      | XArmWrite \<Rightarrow> x_cb s = CbNone
      | XRegister \<Rightarrow> x_cb s = CbNone \<and> \<not> x_wr_past s
      | XLoop \<Rightarrow> x_cb s \<notin> {CbNone, CbStopped} \<and> x_wr_past s = cb_ran (x_cb s)
      | XInWrite \<Rightarrow> x_cb s \<notin> {CbNone, CbStopped} \<and> x_wr_past s = cb_ran (x_cb s)
      | XCheck \<Rightarrow> x_cb s \<notin> {CbNone, CbStopped} \<and> (x_rd_past s \<longrightarrow> cb_ran (x_cb s))
      | XReading \<Rightarrow> x_cb s \<notin> {CbNone, CbStopped} \<and> x_rd_past s = cb_ran (x_cb s)
      | XWaiting \<Rightarrow> x_cb s \<in> {CbStarted, CbSet, CbFinished}
      | XReturned \<Rightarrow> x_cb s \<in> {CbNone, CbStopped, CbFinished}
      | _ \<Rightarrow> x_cb s \<notin> {CbNone, CbStopped})"

lemma xinv_init: "xinv (x_init ctx n wr rd)"
  by (simp add: xinv_def x_init_def)

lemma xinv_step: "xinv s \<Longrightarrow> xstep new s t \<Longrightarrow> xinv t"
  by (erule xstepE) (auto simp: xinv_def cb_ran_def split: xphase.splits)

lemma xinv_reachable: "x_any\<^sup>*\<^sup>* (x_init ctx n wr rd) s \<Longrightarrow> xinv s"
  by (induction rule: rtranclp_induct) (auto simp: xinv_init x_any_def intro: xinv_step)


section \<open>A cancelled exchange returns\<close>

definition phase_rank :: "xphase \<Rightarrow> nat" where
  "phase_rank p = (case p of XStart \<Rightarrow> 10 | XArmWrite \<Rightarrow> 9 | XRegister \<Rightarrow> 8 | XLoop \<Rightarrow> 7 | XInWrite \<Rightarrow> 6
     | XArmRead \<Rightarrow> 5 | XCheck \<Rightarrow> 4 | XReading \<Rightarrow> 3 | XStopping \<Rightarrow> 2 | XWaiting \<Rightarrow> 1 | XReturned \<Rightarrow> 0)"

definition cb_rank :: "xcallback \<Rightarrow> nat" where
  "cb_rank c = (case c of CbNone \<Rightarrow> 3 | CbWaiting \<Rightarrow> 3 | CbStarted \<Rightarrow> 2 | CbSet \<Rightarrow> 1 | _ \<Rightarrow> 0)"

definition x_work :: "xsys \<Rightarrow> nat" where
  "x_work s = phase_rank (x_phase s) + cb_rank (x_cb s)"

lemma x_work_less: "xinv s \<Longrightarrow> xstep False s t \<Longrightarrow> x_work t < x_work s \<and> x_ctx t = x_ctx s"
  by (erule xstepE) (auto simp: x_work_def phase_rank_def cb_rank_def xinv_def)

text \<open>Whatever the network does or does not do.\<close>

lemma x_moves:
  assumes "xinv s" "x_ctx s" "x_phase s \<noteq> XReturned"
  shows "\<exists>t. xstep False s t"
proof (cases "x_cb s \<in> {CbWaiting, CbStarted, CbSet}")
  case True
  then show ?thesis using assms(2) by (auto intro: xstep.intros)
next
  case False
  with assms have "x_phase s \<in> {XStart, XArmWrite, XRegister, XArmRead, XCheck, XLoop} \<or>
      (x_phase s = XInWrite \<and> x_wr_past s) \<or> (x_phase s = XReading \<and> x_rd_past s) \<or>
      (x_phase s \<in> {XStopping, XWaiting} \<and> x_cb s = CbFinished)"
    by (cases "x_phase s"; cases "x_cb s") (auto simp: xinv_def cb_ran_def)
  then show ?thesis using assms(2) by (cases "x_left s = 0") (auto intro: xstep.intros)
qed

interpretation cancelled: draining_object "xstep False" "\<lambda>s. xinv s \<and> x_ctx s" x_work "\<lambda>s. x_phase s \<noteq> XReturned"
  by unfold_locales (auto intro: xinv_step dest: x_work_less x_moves)

lemma x_work_bound: "x_work s \<le> 13"
  by (auto simp: x_work_def phase_rank_def cb_rank_def split: xphase.split xcallback.split)

end
