(* ===== verification/Base64.thy ===== *)
theory Base64
  imports Text_Format "HOL-Library.Code_Target_Numeral"
begin

text \<open>
  Go's \<open>base64.StdEncoding\<close>, which the conformance command uses for payloads: encoding
  with padding, and decoding, which skips line breaks, wants the padding, and ignores the
  bits after the last byte.
\<close>

definition b64_alphabet :: string where
  "b64_alphabet = ''ABCDEFGHIJKLMNOPQRSTUVWXYZabcdefghijklmnopqrstuvwxyz0123456789+/''"

definition b64_char :: "nat \<Rightarrow> char" where
  "b64_char n = b64_alphabet ! n"

definition b64_val :: "char \<Rightarrow> nat option" where
  "b64_val c =
     (let b = byte c in
      if 65 \<le> b \<and> b \<le> 90 then Some (b - 65)
      else if 97 \<le> b \<and> b \<le> 122 then Some (b - 71)
      else if 48 \<le> b \<and> b \<le> 57 then Some (b + 4)
      else if b = 43 then Some 62
      else if b = 47 then Some 63
      else None)"

definition pack2 :: "char \<Rightarrow> char \<Rightarrow> nat" where
  "pack2 a b = byte a * 256 + byte b"

definition pack3 :: "char \<Rightarrow> char \<Rightarrow> char \<Rightarrow> nat" where
  "pack3 a b c = (byte a * 256 + byte b) * 256 + byte c"

definition sextets :: "nat list \<Rightarrow> nat" where
  "sextets xs = foldl (\<lambda>v x. v * 64 + x) 0 xs"

abbreviation PAD :: char where "PAD \<equiv> CHR ''=''"

fun b64_encode :: "bytes \<Rightarrow> string" where
  "b64_encode [] = []"
| "b64_encode [a] =
     (let v = byte a in [b64_char (v div 4), b64_char (v mod 4 * 16), PAD, PAD])"
| "b64_encode [a, b] =
     (let v = pack2 a b
      in [b64_char (v div 1024), b64_char (v div 16 mod 64), b64_char (v mod 16 * 4), PAD])"
| "b64_encode (a # b # c # rest) =
     (let v = pack3 a b c
      in b64_char (v div 262144) # b64_char (v div 4096 mod 64) # b64_char (v div 64 mod 64) #
         b64_char (v mod 64) # b64_encode rest)"

text \<open>Groups of four characters; padding ends the text.\<close>

fun b64_groups :: "string \<Rightarrow> bytes option" where
  "b64_groups [] = Some []"
| "b64_groups (p # q # r # s # rest) =
     (case (b64_val p, b64_val q) of
        (Some x, Some y) \<Rightarrow>
          if r = PAD then
            (if s = PAD \<and> rest = [] then Some [char_of (sextets [x, y] div 16)] else None)
          else (case b64_val r of None \<Rightarrow> None | Some z \<Rightarrow>
            if s = PAD then
              (if rest = []
               then (let v = sextets [x, y, z] div 4 in Some [char_of (v div 256), char_of (v mod 256)])
               else None)
            else (case b64_val s of None \<Rightarrow> None | Some u \<Rightarrow>
              (let v = sextets [x, y, z, u]
               in map_option (\<lambda>bs. char_of (v div 65536) # char_of (v div 256 mod 256) # char_of (v mod 256) # bs)
                    (b64_groups rest))))
      | _ \<Rightarrow> None)"
| "b64_groups _ = None"

definition b64_decode :: "string \<Rightarrow> bytes option" where
  "b64_decode s = b64_groups (filter (\<lambda>c. c \<noteq> CR \<and> c \<noteq> LF) s)"

lemma b64_table: "list_all (\<lambda>n. b64_val (b64_char n) = Some n \<and> b64_char n \<noteq> PAD \<and> b64_char n \<noteq> CR \<and> b64_char n \<noteq> LF) [0..<64]"
  by code_simp

lemma b64_char_props [simp]:
  assumes "n < 64"
  shows "b64_val (b64_char n) = Some n" "b64_char n \<noteq> PAD" "b64_char n \<noteq> CR" "b64_char n \<noteq> LF"
  using b64_table assms by (auto simp: list_all_iff)

text \<open>The digits of a value in base 64.\<close>

lemma base64_digits:
  "sextets [v div 262144, v div 4096 mod 64, v div 64 mod 64, v mod 64] = v"
  "sextets [v div 1024, v div 16 mod 64, v mod 16 * 4] = v * 4"
  "sextets [v div 4, v mod 4 * 16] = v * 16"
proof -
  have d: "v div 262144 = v div 64 div 64 div 64" "v div 4096 = v div 64 div 64" "v div 1024 = v div 16 div 64"
    by (simp_all add: div_mult2_eq [symmetric])
  have e: "x div 64 * 64 + x mod 64 = x" "x div 16 * 16 + x mod 16 = x" "x div 4 * 4 + x mod 4 = x" for x :: nat
    by (simp_all add: div_mult_mod_eq)
  have f: "sextets [x, y] = x * 64 + y" "sextets [x, y, z] = (x * 64 + y) * 64 + z"
    "sextets [x, y, z, u] = ((x * 64 + y) * 64 + z) * 64 + u" for x y z u
    by (simp_all add: sextets_def)
  show "sextets [v div 262144, v div 4096 mod 64, v div 64 mod 64, v mod 64] = v"
    unfolding f d e ..
  show "sextets [v div 1024, v div 16 mod 64, v mod 16 * 4] = v * 4"
    unfolding f d e using e(2) [of v] by linarith
  show "sextets [v div 4, v mod 4 * 16] = v * 16" unfolding f using e(3) [of v] by linarith
qed

lemma digits_less:
  fixes v :: nat
  shows "v < 256 \<Longrightarrow> v div 4 < 64" "v mod 4 * 16 < 64" "v < 65536 \<Longrightarrow> v div 1024 < 64" "v mod 16 * 4 < 64"
    "v < 16777216 \<Longrightarrow> v div 262144 < 64" "v mod 64 < 64"
proof -
  have "v mod 4 < 4" "v mod 16 < 16" by simp_all
  then show "v mod 4 * 16 < 64" "v mod 16 * 4 < 64" by linarith+
qed (simp_all add: less_mult_imp_div_less)

text \<open>Bytes put together stay in range, and come apart again.\<close>

lemma pack_less: "pack2 a b < 65536" "pack3 a b c < 16777216"
proof -
  have "byte a \<le> 255" "byte b \<le> 255" "byte c \<le> 255" by (simp_all add: less_Suc_eq_le [symmetric])
  then show "pack2 a b < 65536" "pack3 a b c < 16777216" unfolding pack2_def pack3_def add_mult_distrib by linarith+
qed

lemma pack_apart:
  "pack3 a b c div 65536 = byte a" "pack3 a b c div 256 mod 256 = byte b" "pack3 a b c mod 256 = byte c"
  "pack2 a b div 256 = byte a" "pack2 a b mod 256 = byte b"
proof -
  have d: "pack3 a b c div 256 = pack2 a b" "pack3 a b c mod 256 = byte c"
    unfolding pack3_def pack2_def using byte_less [of c] by (simp_all only: div_mult_self3 mod_mult_self3) simp_all
  have e: "pack2 a b div 256 = byte a" "pack2 a b mod 256 = byte b"
    unfolding pack2_def using byte_less [of b] by (simp_all only: div_mult_self3 mod_mult_self3) simp_all
  have "pack3 a b c div 65536 = pack3 a b c div 256 div 256" by (simp add: div_mult2_eq [symmetric])
  with d e show "pack3 a b c div 65536 = byte a" "pack3 a b c div 256 mod 256 = byte b" "pack3 a b c mod 256 = byte c"
    "pack2 a b div 256 = byte a" "pack2 a b mod 256 = byte b" by simp_all
qed

lemma char_of_pack [simp]:
  "char_of (pack3 a b c div 65536) = a" "char_of (pack3 a b c div 256) = b" "char_of (pack3 a b c) = c"
  "char_of (pack2 a b div 256) = a" "char_of (pack2 a b) = b" "char_of (byte a) = a"
proof -
  have c: "char_of (byte x) = x" for x by (simp add: byte_def)
  have "(char_of (n mod 256) :: char) = char_of n" for n :: nat by simp
  with c pack_apart(1-3) [of a b c] pack_apart(4,5) [of a b]
  show "char_of (pack3 a b c div 65536) = a" "char_of (pack3 a b c div 256) = b" "char_of (pack3 a b c) = c"
    "char_of (pack2 a b div 256) = a" "char_of (pack2 a b) = b" "char_of (byte a) = a" by metis+
qed

lemma b64_encode_chars: "c \<in> set (b64_encode bs) \<Longrightarrow> c \<noteq> CR \<and> c \<noteq> LF"
  by (induction bs rule: b64_encode.induct) (auto simp: Let_def digits_less pack_less)

lemma b64_groups_encode: "b64_groups (b64_encode bs) = Some bs"
  by (induction bs rule: b64_encode.induct)
    (simp_all add: Let_def digits_less pack_less base64_digits)

lemma b64_decode_encode: "b64_decode (b64_encode bs) = Some bs"
proof -
  have "filter (\<lambda>c. c \<noteq> CR \<and> c \<noteq> LF) (b64_encode bs) = b64_encode bs"
    using b64_encode_chars by (auto intro: filter_True)
  then show ?thesis by (simp add: b64_decode_def b64_groups_encode)
qed

interpretation base64: text_format b64_encode b64_decode "\<lambda>_. True"
  by unfold_locales (rule b64_decode_encode)

text \<open>Decoding also takes a text with line breaks, as if they were not there.\<close>

lemma b64_decode_breaks: "b64_decode (s @ [CR, LF] @ t) = b64_decode (s @ t)"
  by (simp add: b64_decode_def)

end
