(* ===== verification/Conformance.thy ===== *)
theory Conformance
  imports Client Float64 Base64
begin

text \<open>
  \<open>cmd/conformance/main.go\<close>: the command that serves one client over JSON lines.
  Decoding a line into a request, and the values \<open>encoding/json\<close> moves, are parameters;
  what the command makes of a decoded request is modelled.
\<close>


section \<open>Requests and answers\<close>

record conf_options =
  o_Timeout :: f64
  o_ReadTimeout :: f64
  o_WriteTimeout :: f64
  o_MaxFrameBytes :: int
  o_MaxRedirects :: int
  o_RetryReads :: "bool option"
  o_Username :: string
  o_Password :: string
  o_AuthToken :: string
  o_SecretKey :: string
  o_Galaxy :: string
  o_TLS :: bool
  o_TLSCaFile :: string
  o_TLSServerName :: string
  o_TLSInsecureSkipVerify :: bool

record conf_request =
  r_Op :: string
  r_Ring :: string
  r_ID :: string
  r_Payload :: string
  r_Codec :: string
  r_Selection :: string
  r_Peers :: "string list"
  r_Value :: bytes
  r_Options :: conf_options
  r_Timeout :: f64
  r_ReadTimeout :: f64
  r_WriteTimeout :: f64

datatype conf_result = RNull | RText string | RRecord string codec | RJson bytes

datatype response = Accepted conf_result | Rejected string string


section \<open>kind\<close>

definition kinds :: "(go_error \<times> string) list" where
  "kinds =
     [(ErrIndeterminateWrite, ''IndeterminateWriteException''),
      (ErrAuthentication, ''AuthenticationException''),
      (ErrProtocol, ''ProtocolException''),
      (ErrVersionMismatch, ''VersionMismatchException''),
      (ErrTimeout, ''ConnectionTimeoutException''),
      (ErrConnection, ''ConnectionException''),
      (ErrServer, ''ServerException'')]"

definition kind :: "go_error \<Rightarrow> string" where
  "kind err =
     (case find (\<lambda>(e, name). errors_Is err e) kinds of
        None \<Rightarrow> ''InvalidInputException'' | Some (_, name) \<Rightarrow> name)"


section \<open>duration\<close>

text \<open>The product with \<open>float64(time.Second)\<close>, \<open>10 ^ 9\<close>, rounded; and the conversion to
  \<open>int64\<close>, which cuts towards zero and is left to the machine (\<open>wild\<close>) where the value
  does not fit.\<close>

definition mul_second :: "f64 \<Rightarrow> f64" where
  "mul_second x =
     (if isNaN x \<or> isInf x \<or> f64_mag x = 0 then x
      else let m = f64_mag x in
        f64_make (f64_neg x)
          (case round_pos (sig m * 10 ^ 9 * 2 ^ nat (pow m)) (2 ^ nat (- pow m)) of
             None \<Rightarrow> inf_mag | Some q \<Rightarrow> q))"

definition f64_trunc :: "f64 \<Rightarrow> int" where
  "f64_trunc x =
     (let m = f64_mag x; q = int (sig m * 2 ^ nat (pow m) div 2 ^ nat (- pow m))
      in if f64_neg x then - q else q)"

definition to_int64 :: "(f64 \<Rightarrow> int) \<Rightarrow> f64 \<Rightarrow> int" where
  "to_int64 wild x =
     (if isNaN x \<or> isInf x then wild x
      else let q = f64_trunc x in if - (2 ^ 63) \<le> q \<and> q < 2 ^ 63 then q else wild x)"

definition duration :: "(f64 \<Rightarrow> int) \<Rightarrow> f64 \<Rightarrow> int" where
  "duration wild s = to_int64 wild (mul_second s)"

definition f64_zero :: "f64 \<Rightarrow> bool" where
  "f64_zero x \<longleftrightarrow> f64_mag x = 0"

definition f64_one :: f64 where
  "f64_one = 0x3FF0000000000000"


section \<open>run\<close>

text \<open>A timeout of the request overrides the option; zero stands for one second.\<close>

definition override_time :: "f64 \<Rightarrow> f64 \<Rightarrow> f64" where
  "override_time r ops =
     (let t = (if f64_zero r then ops else r) in if f64_zero t then f64_one else t)"

definition conf_settings :: "(f64 \<Rightarrow> int) \<Rightarrow> conf_request \<Rightarrow> Options" where
  "conf_settings wild r =
     (let ops = r_Options r in
      \<lparr>ConnectTimeout = duration wild (override_time (r_Timeout r) (o_Timeout ops)),
       ReadTimeout = duration wild (override_time (r_ReadTimeout r) (o_ReadTimeout ops)),
       WriteTimeout = duration wild (override_time (r_WriteTimeout r) (o_WriteTimeout ops)),
       MaxFrameBytes = o_MaxFrameBytes ops, MaxRedirects = o_MaxRedirects ops,
       DisableReadRetry = (o_RetryReads ops = Some False),
       Creds = \<lparr>Username = o_Username ops, Password = o_Password ops, AuthToken = o_AuthToken ops,
                SecretKey = o_SecretKey ops\<rparr>,
       Galaxy = o_Galaxy ops,
       TLS = (if o_TLS ops then Some \<lparr>CAFile = o_TLSCaFile ops, ServerName = o_TLSServerName ops,
                InsecureSkipVerify = o_TLSInsecureSkipVerify ops\<rparr> else None)\<rparr>)"

text \<open>The surroundings: cryptography, CA files, number conversion, \<open>json.Marshal\<close> and
  \<open>json.Unmarshal\<close> on a \<open>json.RawMessage\<close>.\<close>

record conf_env =
  e_crypto :: crypto
  e_load_ca :: "string \<Rightarrow> bytes option"
  e_wild :: "f64 \<Rightarrow> int"
  e_marshal :: "bytes \<Rightarrow> bytes option"
  e_unmarshal :: "bytes unmarshal"

type_synonym conf_out = "(go_error + conf_result) \<times> client option \<times> world"

definition run_connect :: "conf_env \<Rightarrow> conf_request \<Rightarrow> client option \<Rightarrow> world \<Rightarrow> conf_out" where
  "run_connect E r h w =
     (let w1 = snd (Close h w) in
      case Dial (e_crypto E) (e_load_ca E) (Some background) (r_Peers r) (conf_settings (e_wild E) r) w1 of
        (Inl e, w2) \<Rightarrow> (Inl e, None, w2)
      | (Inr c, w2) \<Rightarrow> (Inr (RText ''connected''), Some c, w2))"

text \<open>The identity of a failed write is not used by the caller of \<open>run\<close>.\<close>

definition id_result :: "(go_error + ID) \<times> client option \<times> world \<Rightarrow> conf_out" where
  "id_result out = (case out of (r, h, w) \<Rightarrow> (map_sum (\<lambda>e. e) (\<lambda>i. RText (ID_String i)) r, h, w))"

definition run_put :: "conf_env \<Rightarrow> conf_request \<Rightarrow> client option \<Rightarrow> world \<Rightarrow> conf_out" where
  "run_put E r h w =
     (case b64_decode (r_Payload r) of
        None \<Rightarrow> (Inl ErrInvalidInput, h, w)
      | Some b \<Rightarrow> id_result (PutCodec (e_crypto E) (Some background) h (r_Ring r) b
            (if r_Codec r = [] then Raw else r_Codec r) w))"

definition record_result :: "Payload option \<Rightarrow> conf_result" where
  "record_result p = (case p of None \<Rightarrow> RNull | Some v \<Rightarrow> RRecord (b64_encode (Data v)) (Codec v))"

text \<open>A missing record gives \<open>null\<close> even where it comes with an error, which then decides.\<close>

definition json_result :: "(bool \<times> go_error option \<times> bytes) \<times> client option \<times> world \<Rightarrow> conf_out" where
  "json_result out =
     (case out of ((found, e, v), h, w) \<Rightarrow>
        (case e of Some err \<Rightarrow> Inl err | None \<Rightarrow> Inr (if found then RJson v else RNull), h, w))"

definition run_read :: "conf_env \<Rightarrow> conf_request \<Rightarrow> client option \<Rightarrow> world \<Rightarrow> conf_out" where
  "run_read E r h w =
     (case ParseID (r_ID r) of
        Inl e \<Rightarrow> (Inl e, h, w)
      | Inr i \<Rightarrow>
        if r_Op r = ''get'' then
          (case Get (e_crypto E) (Some background) h i w of
             (x, h1, w1) \<Rightarrow> (map_sum (\<lambda>e. e) record_result x, h1, w1))
        else if r_Op r = ''getJson'' then
          json_result (GetJSON (e_crypto E) (e_unmarshal E) (Some background) h i [] w)
        else json_result (QueryJSON (e_crypto E) (e_unmarshal E) (Some background) h i (r_Selection r) [] w))"

definition run :: "conf_env \<Rightarrow> conf_request \<Rightarrow> client option \<Rightarrow> world \<Rightarrow> conf_out" where
  "run E r h w =
     (if r_Op r = ''connect'' then run_connect E r h w
      else if h = None then (Inl ErrClosed, h, w)
      else if r_Op r = ''close'' then
        (let (h1, w1) = Close h w in (Inr (RText ''closed''), h1, w1))
      else if r_Op r = ''debug'' then (Inr (RText (Client_String h)), h, w)
      else if r_Op r = ''health'' then
        (let (x, h1, w1) = Health (e_crypto E) (Some background) h w in (map_sum (\<lambda>e. e) RText x, h1, w1))
      else if r_Op r = ''put'' then run_put E r h w
      else if r_Op r = ''putJson'' then
        id_result (PutJSON (e_crypto E) (e_marshal E) (Some background) h (r_Ring r) (r_Value r) w)
      else if r_Op r \<in> {''get'', ''getJson'', ''query''} then run_read E r h w
      else (Inl ErrInvalidInput, h, w))"


section \<open>main\<close>

definition respond :: "go_error + conf_result \<Rightarrow> response" where
  "respond r = (case r of Inr v \<Rightarrow> Accepted v | Inl e \<Rightarrow> Rejected (kind e) (Error e))"

text \<open>The loop over the lines of standard input: the responses written, whether the process
  left through \<open>os.Exit(1)\<close> because a response could not be encoded, and the client.\<close>

fun serve ::
  "conf_env \<Rightarrow> (bytes \<Rightarrow> conf_request option) \<Rightarrow> (response \<Rightarrow> bool) \<Rightarrow> bytes list \<Rightarrow> client option \<Rightarrow> world
     \<Rightarrow> response list \<times> bool \<times> client option \<times> world" where
  "serve E decode emit [] h w = ([], False, h, w)"
| "serve E decode emit (l # ls) h w =
     (let (r, h1, w1) = (case decode l of None \<Rightarrow> (Inl ErrInvalidInput, h, w) | Some q \<Rightarrow> run E q h w);
          a = respond r
      in if \<not> emit a then ([], True, h1, w1)
         else let (as, ex, h2, w2) = serve E decode emit ls h1 w1 in (a # as, ex, h2, w2))"

text \<open>\<open>scan_err\<close>: the scanner stopped at an error (a line that is too long, a failed
  read).  The deferred close runs unless the process left through \<open>os.Exit\<close>.\<close>

definition conf_main ::
  "conf_env \<Rightarrow> (bytes \<Rightarrow> conf_request option) \<Rightarrow> (response \<Rightarrow> bool) \<Rightarrow> bytes list \<Rightarrow> bool \<Rightarrow> world
     \<Rightarrow> response list \<times> int \<times> world" where
  "conf_main E decode emit ls scan_err w =
     (let (as, ex, h, w1) = serve E decode emit ls None w in
      if ex \<or> scan_err then (as, 1, w1) else (as, 0, snd (Close h w1)))"

end
