(* ===== verification/Conformance_Laws.thy ===== *)
theory Conformance_Laws
  imports Conformance Conversation
begin

text \<open>
  The conformance command: the classes it reports, and that it never loses a socket.
\<close>


section \<open>Reported classes\<close>

lemma kind_sentinels:
  "map kind sentinels =
     [''ConnectionException'', ''ConnectionTimeoutException'', ''AuthenticationException'', ''ProtocolException'',
      ''VersionMismatchException'', ''ServerException'', ''IndeterminateWriteException'',
      ''InvalidInputException'', ''ConnectionException'']"
  by (simp add: kind_def kinds_def sentinels_def errors_Is_sentinels)

lemma kind_indeterminate:
  "kind (KErr (err_kind ErrIndeterminateWrite) (err_message ErrIndeterminateWrite) (Some c)) = ''IndeterminateWriteException''"
  by (simp add: kind_def kinds_def ErrIndeterminateWrite_def)

lemma kind_context: "kind Canceled = ''InvalidInputException''" "kind DeadlineExceeded = ''InvalidInputException''"
  by (simp_all add: kind_def kinds_def)

text \<open>The name tells the error apart: two public errors of one name are the same class.\<close>

lemma kind_exact:
  assumes "e \<in> set sentinels" "e' \<in> set sentinels" "kind e = kind e'"
  shows "e = e' \<or> {e, e'} = {ErrClosed, ErrConnection}"
  using assms kind_sentinels unfolding sentinels_def by auto


section \<open>Sockets\<close>

definition conf_inv :: "nat set \<Rightarrow> client option \<Rightarrow> world \<Rightarrow> bool" where
  "conf_inv F h w = (case h of None \<Rightarrow> world_ok w \<and> open_conns w = F | Some c \<Rightarrow> client_inv F c w)"

lemma conf_inv_closed:
  assumes "conf_inv F h w"
  shows "conf_inv F None (snd (Close h w))"
proof (cases h)
  case None
  with assms show ?thesis by (simp add: Close_def)
next
  case (Some c)
  obtain h1 w1 where cl: "Close (Some c) w = (h1, w1)" by fastforce
  from Some assms have "client_inv F c w" by (simp add: conf_inv_def)
  from Close_effect [OF this cl] Some cl show ?thesis
    by (auto simp: conf_inv_def client_inv_def owns_def world_ok_def)
qed

lemma call_effect_conf:
  "call_effect C cx F k c w out \<Longrightarrow> out = (r, h1, w1) \<Longrightarrow> conf_inv F h1 w1 \<and> h1 \<noteq> None"
  by (auto simp: call_effect_def conf_inv_def)

lemma run_connect_inv:
  assumes inv: "conf_inv F h w" and rn: "run_connect E r h w = (x, h1, w1)"
  shows "conf_inv F h1 w1"
proof -
  let ?w = "snd (Close h w)"
  have w: "world_ok ?w" "open_conns ?w = F" using conf_inv_closed [OF inv] by (simp_all add: conf_inv_def)
  obtain y w2 where d: "Dial (e_crypto E) (e_load_ca E) (Some background) (r_Peers r) (conf_settings (e_wild E) r) ?w = (y, w2)"
    by fastforce
  note de = Dial_effect [OF w(1) d, unfolded w(2)]
  have ok: "world_ok w2" by (rule Dial_world_ok [OF w(1) d])
  from rn d de ok show ?thesis
    by (cases y) (auto simp: run_connect_def conf_inv_def)
qed

lemma run_inv:
  assumes inv: "conf_inv F h w" and rn: "run E r h w = (x, h1, w1)"
  shows "conf_inv F h1 w1"
proof (cases "r_Op r = ''connect''")
  case True
  with rn run_connect_inv [OF inv] show ?thesis by (simp add: run_def)
next
  case False
  show ?thesis
  proof (cases h)
    case None
    with rn False inv show ?thesis by (simp add: run_def)
  next
    case (Some c)
    let ?C = "e_crypto E"
    have ci: "client_inv F c w" using inv Some by (simp add: conf_inv_def)
    note put = call_effect_conf [OF PutCodec_effect [OF ci, of ?C background]]
    note rd = call_effect_conf [OF read_record_effect [OF ci, of ?C background]]
    note he = call_effect_conf [OF Health_effect [OF ci, of ?C background]]
    have cl: "conf_inv F h2 w2" if "Close (Some c) w = (h2, w2)" for h2 w2
      using Close_effect [OF ci that] by (auto simp: conf_inv_def)
    show ?thesis
      using rn False Some inv put rd he cl
      by (auto simp: run_def run_put_def run_read_def id_result_def json_result_def PutJSON_def GetJSON_def
          QueryJSON_def Get_def Query_def split: if_splits option.splits sum.splits prod.splits)
  qed
qed

lemma serve_inv:
  "conf_inv F h w \<Longrightarrow> serve E decode emit ls h w = (as, ex, h1, w1) \<Longrightarrow> conf_inv F h1 w1"
proof (induction ls arbitrary: h w as)
  case (Cons l ls)
  obtain r h2 w2 where s: "(case decode l of None \<Rightarrow> (Inl ErrInvalidInput, h, w) | Some q \<Rightarrow> run E q h w) = (r, h2, w2)"
    by (rule prod_cases3)
  then have "conf_inv F h2 w2" using Cons.prems(1) by (auto split: option.splits intro: run_inv)
  with Cons.IH [OF this] Cons.prems(2) s show ?case
    by (auto simp: Let_def split: if_splits prod.splits)
qed simp

lemma main_closes:
  assumes "world_ok w" "conf_main E decode emit ls scan_err w = (as, 0, w1)"
  shows "open_conns w1 = open_conns w"
proof -
  obtain as' ex h w2 where s: "serve E decode emit ls None w = (as', ex, h, w2)" by (rule prod_cases4)
  have "conf_inv (open_conns w) None w" using assms(1) by (simp add: conf_inv_def)
  from conf_inv_closed [OF serve_inv [OF this s]] assms(2) s show ?thesis
    by (auto simp: conf_main_def conf_inv_def split: if_splits)
qed

text \<open>One response per line, in order, as long as responses can be written.\<close>

lemma serve_length:
  "serve E decode emit ls h w = (as, False, h1, w1) \<Longrightarrow> length as = length ls \<and> list_all emit as"
  by (induction ls arbitrary: h w as) (auto simp: Let_def split: if_splits prod.splits)

lemma serve_append:
  "serve E decode emit (ls @ ms) h w =
     (let (as, ex, h1, w1) = serve E decode emit ls h w in
      if ex then (as, ex, h1, w1) else let (bs, ex2, h2, w2) = serve E decode emit ms h1 w1 in (as @ bs, ex2, h2, w2))"
  by (induction ls arbitrary: h w) (auto simp: Let_def split: prod.splits if_splits)


section \<open>Payloads\<close>

lemma run_put_payload:
  "r_Op r = ''put'' \<Longrightarrow> r_Payload r = b64_encode bs \<Longrightarrow>
     run E r (Some c) w = id_result (PutCodec (e_crypto E) (Some background) (Some c) (r_Ring r) bs
       (if r_Codec r = [] then Raw else r_Codec r) w)"
  by (simp add: run_def run_put_def b64_decode_encode)

text \<open>A value on the server comes out in base64, from which the client's bytes are read.\<close>

lemma run_get_value:
  assumes op: "r_Op r = ''get''" "r_ID r = ID_String i" and i: "ID_valid i"
    and conv: "conversing (e_crypto E) background F c w (route 0 hops b @ rs)"
    and h: "hops_ok c hops" "int (length hops) \<le> MaxRedirects (cl_opts c)" and out: "outcome_reply c (Some p) b"
  shows "\<exists>c1 w1. run E r (Some c) w = (Inr (RRecord (b64_encode (Data p)) (Codec p)), Some c1, w1)"
proof -
  have "read_input_ok c i None" using i by (simp add: read_input_ok_def)
  from read_record_conversing [OF conv this h out] op ParseID_String [OF i] show ?thesis
    by (auto simp: run_def run_read_def Get_def record_result_def)
qed

end
