(* ===== verification/Scenarios.thy ===== *)
theory Scenarios
  imports Samples Examples Worker Gate Cancellation Conformance_Laws
begin

text \<open>
  Concrete runs: a reference library for the embedded binding, one complete call through
  the worker thread and one through the gate, and requests of the conformance command.
\<close>


section \<open>A reference library\<close>

text \<open>The state maps handles and identities to records; a new record goes to one fixed
  identity, and is refused when that is taken.\<close>

type_synonym lib_store = "nat \<Rightarrow> kouten_id \<Rightarrow> (int \<times> bytes) option"

definition store_id :: kouten_id where
  "store_id = \<lparr>k_parent = 1, k_epoch = 2, k_seq = 3, k_t_write = 0\<rparr>"

definition store_set :: "lib_store \<Rightarrow> nat \<Rightarrow> kouten_id \<Rightarrow> (int \<times> bytes) option \<Rightarrow> lib_store" where
  "store_set s h k v = s(h := (s h)(k := v))"

definition sample_abi :: "lib_store abi" where
  "sample_abi =
     \<lparr>abi_init = (\<lambda>s. s), abi_version = (\<lambda>s. 2),
      abi_open = (\<lambda>n s. (Some 0, s)), abi_open_dir = (\<lambda>n d a b s. (Some 0, s)), abi_close = (\<lambda>h s. s),
      abi_put = (\<lambda>h ring d n c v m s.
        if s h store_id = None then ((0, store_id), store_set s h store_id (Some (c, c_data d n))) else ((1, store_id), s)),
      abi_exists = (\<lambda>h k s. (if s h k = None then 0 else 1, s)),
      abi_get = (\<lambda>h k s. (case s h k of None \<Rightarrow> (None, 0) | Some (c, d) \<Rightarrow> (Some (7, d), c), s)),
      abi_query = (\<lambda>h k sel s. (None, s)),
      abi_update = (\<lambda>h k d n c s. (0, store_set s h k (Some (c, c_data d n)))),
      abi_remove = (\<lambda>h k s. (0, store_set s h k None)),
      abi_read_ring = (\<lambda>h ra s. (None, s))\<rparr>"

definition empty_store :: "lib_store process" where
  "empty_store = \<lparr>lib = (\<lambda>_ _. None), inited = True, held = []\<rparr>"

definition full_store :: "lib_store process" where
  "full_store = \<lparr>lib = store_set (\<lambda>_ _. None) 0 store_id (Some (0, ''v'')), inited = True, held = []\<rparr>"

definition sample_db :: DB where
  "sample_db = \<lparr>db_raw = 0, db_closed = False\<rparr>"

lemma sample_store_contract: "store_contract sample_abi (\<lambda>s. s)"
  by (auto simp: store_contract_def put_contract_def sample_abi_def store_set_def KOUTEN_OK_def
      split: if_splits option.splits)

lemma sample_eid_valid: "eid_valid (fromC store_id)"
  by code_simp


section \<open>One call through the worker\<close>

lemma worker_scenario:
  fixes p :: 's and q :: "'j wreq" and sv :: "('s, 'j, 'r) service"
  obtains s where "(any_step sv)\<^sup>*\<^sup>* (wsys_init p) s" "ws_callers s i = Leaving q (fst (perform sv q p))"
    "ws_hist s = [(q, fst (perform sv q p))]" "ws_proc s = snd (perform sv q p)" "only_callers (Suc i) s"
proof -
  let ?r = "fst (perform sv q p)"
  define s0 where "s0 = (wsys_init p :: ('s, 'j, 'r) wsys)"
  define s1 where "s1 = move i (Locking q) s0"
  define s2 where "s2 = move i (Checking q) (s1\<lparr>ws_locked := True\<rparr>)"
  define s3 where "s3 = move i (Sending q) (s2\<lparr>ws_done := (ws_done s2)(i := None)\<rparr>)"
  define s4 where "s4 = move i (Waiting q) (s3\<lparr>ws_worker := Running i q\<rparr>)"
  define s5 where "s5 = s4\<lparr>ws_worker := Replying i q ?r, ws_proc := snd (perform sv q p), ws_hist := ws_hist s4 @ [(q, ?r)]\<rparr>"
  define s6 where "s6 = s5\<lparr>ws_worker := (if q = CloseReq then Exited else Serving), ws_done := (ws_done s5)(i := Some ?r)\<rparr>"
  define s7 where "s7 = move i (Leaving q ?r) (s6\<lparr>ws_closed := (ws_closed s6 \<or> q = CloseReq)\<rparr>)"
  note defs = s7_def s6_def s5_def s4_def s3_def s2_def s1_def s0_def wsys_init_def
  note any = any_step_def
  have "any_step sv s0 s1" unfolding any s1_def by (rule exI, rule worker_step.invoke) (simp add: defs)
  moreover have "any_step sv s1 s2" unfolding any s2_def by (rule exI, rule worker_step.acquire) (simp_all add: defs)
  moreover have "any_step sv s2 s3" unfolding any s3_def by (rule exI, rule worker_step.admit) (simp_all add: defs)
  moreover have "any_step sv s3 s4" unfolding any s4_def by (rule exI, rule worker_step.handover) (simp_all add: defs)
  moreover have "any_step sv s4 s5" unfolding any s5_def by (rule exI, rule worker_step.run) (simp_all add: defs)
  moreover have "any_step sv s5 s6" unfolding any s6_def by (rule exI, rule worker_step.reply) (simp add: defs)
  moreover have "any_step sv s6 s7" unfolding any s7_def by (rule exI, rule worker_step.receive) (simp_all add: defs)
  ultimately have "(any_step sv)\<^sup>*\<^sup>* s0 s7"
    by (meson converse_rtranclp_into_rtranclp r_into_rtranclp)
  then show thesis
    by (rule that [unfolded s0_def [symmetric]]) (simp_all add: defs only_callers_def idle_from_def)
qed


section \<open>Calls through the gate\<close>

lemma gate_scenario:
  fixes a :: 's and j :: 'j and sv :: "('s, 'j, 'r) guarded_client"
  assumes "gs_exec sv j a = (r, b)"
  obtains s where "(gate_any sv)\<^sup>*\<^sup>* (gsys_init a) s" "idle_from (Suc i) Out (g_callers s)"
    "g_hist s = [(Operation j, if gs_closed sv a then gs_err sv ErrClosed else r)]"
    "g_state s = (if gs_closed sv a then a else b)"
proof -
  define s0 where "s0 = (gsys_init a :: ('s, 'j, 'r) gsys)"
  define s1 where "s1 = gmove i (Selecting j) (s0\<lparr>g_ctx := (g_ctx s0)(i := None)\<rparr>)"
  define s2 where "s2 = gmove i (Entered j) (s1\<lparr>g_token := False\<rparr>)"
  define s3 where "s3 = gmove i (Checked j) s2"
  note defs = s3_def s2_def s1_def s0_def gsys_init_def and any = gate_any_def
  have "gate_any sv s0 s1" unfolding any s1_def by (rule exI, rule gate_step.g_call) (simp add: defs)
  moreover have "gate_any sv s1 s2" unfolding any s2_def by (rule exI, rule gate_step.g_take) (simp_all add: defs)
  moreover have "gate_any sv s2 s3" unfolding any s3_def by (rule exI, rule gate_step.g_alive) (simp_all add: defs)
  ultimately have run: "(gate_any sv)\<^sup>*\<^sup>* s0 s3"
    by (meson converse_rtranclp_into_rtranclp r_into_rtranclp)
  show thesis
  proof (cases "gs_closed sv a")
    case True
    define s4 where "s4 = gmove i (Releasing (gs_err sv ErrClosed)) (answered (Operation j) (gs_err sv ErrClosed) s3)"
    have "gate_any sv s3 s4" unfolding any s4_def by (rule exI, rule gate_step.g_refuse) (simp_all add: defs True)
    with run have "(gate_any sv)\<^sup>*\<^sup>* s0 s4" by simp
    then show thesis
      by (rule that [unfolded s0_def [symmetric]]) (simp_all add: s4_def defs True idle_from_def)
  next
    case False
    define s4 where "s4 = gmove i (Working j) s3"
    define s5 where "s5 = gmove i (Releasing r) (answered (Operation j) r (s4\<lparr>g_state := b\<rparr>))"
    have "gate_any sv s3 s4" unfolding any s4_def by (rule exI, rule gate_step.g_admit) (simp_all add: defs False)
    moreover have "gate_any sv s4 s5" unfolding any s5_def
      by (rule exI, rule gate_step.g_work) (simp_all add: s4_def defs assms)
    ultimately have "(gate_any sv)\<^sup>*\<^sup>* s0 s5" using run by (meson rtranclp.rtrancl_into_rtrancl)
    then show thesis
      by (rule that [unfolded s0_def [symmetric]]) (simp_all add: s5_def s4_def defs False idle_from_def)
  qed
qed


section \<open>A cancelled exchange\<close>

text \<open>The deadlines are stale from an earlier cancellation; the context ends during the
  write, and the callback has run.\<close>

lemma cancel_scenario:
  obtains s where "x_any\<^sup>*\<^sup>* (x_init False 5 True True) s" "x_phase s = XInWrite" "x_cb s = CbSet" "x_ctx s"
proof -
  define s0 where "s0 = x_init False 5 True True"
  define s1 where "s1 = s0\<lparr>x_phase := XArmWrite\<rparr>"
  define s2 where "s2 = s1\<lparr>x_phase := XRegister, x_wr_past := False\<rparr>"
  define s3 where "s3 = s2\<lparr>x_phase := XLoop, x_cb := CbWaiting\<rparr>"
  define s4 where "s4 = s3\<lparr>x_phase := XInWrite\<rparr>"
  define s5 where "s5 = s4\<lparr>x_ctx := True\<rparr>"
  define s6 where "s6 = s5\<lparr>x_cb := CbStarted\<rparr>"
  define s7 where "s7 = s6\<lparr>x_cb := CbSet, x_wr_past := True, x_rd_past := True\<rparr>"
  note defs = s7_def s6_def s5_def s4_def s3_def s2_def s1_def s0_def x_init_def and any = x_any_def
  have "x_any s0 s1" unfolding any s1_def by (rule exI, rule xstep.x_begin) (simp_all add: defs)
  moreover have "x_any s1 s2" unfolding any s2_def by (rule exI, rule xstep.x_arm_write) (simp add: defs)
  moreover have "x_any s2 s3" unfolding any s3_def by (rule exI, rule xstep.x_register) (simp add: defs)
  moreover have "x_any s3 s4" unfolding any s4_def by (rule exI, rule xstep.x_loop_write) (simp_all add: defs)
  moreover have "x_any s4 s5" unfolding any s5_def by (rule exI, rule xstep.x_cancel) (simp add: defs)
  moreover have "x_any s5 s6" unfolding any s6_def by (rule exI, rule xstep.cb_start) (simp_all add: defs)
  moreover have "x_any s6 s7" unfolding any s7_def by (rule exI, rule xstep.cb_set) (simp add: defs)
  ultimately have "x_any\<^sup>*\<^sup>* s0 s7" by (meson converse_rtranclp_into_rtranclp r_into_rtranclp)
  then show thesis by (rule that [unfolded s0_def [symmetric]]) (simp_all add: defs)
qed


section \<open>Conversations\<close>

text \<open>A client whose second node is not connected yet, and the world in which it is redirected
  there.\<close>

definition pair_client :: client where
  "pair_client = sample_client\<lparr>cl_peers := [''localhost:7301'', ''localhost:7302'']\<rparr>"

definition pair_world :: "bytes \<Rightarrow> bytes \<Rightarrow> world" where
  "pair_world a b = (world_with [])\<lparr>w_dials := [None], w_inbox := (\<lambda>i. map Inr (if i = 0 then a else b))\<rparr>"

lemma pair_conversing:
  "conversing sample_crypto background {} pair_client (pair_world a (greeting sample_opts @ b)) [(0, a), (1, b)]"
proof -
  have nodes: "conn_nodes pair_client = {0}" "cl_opts pair_client = sample_opts" "cl_conns pair_client = [(0, sample_wire)]"
    by (simp_all add: conn_nodes_def pair_client_def sample_client_def)
  have wd: "w_dials (pair_world a b) = [None]" "w_next (pair_world a b) = 1" "calm (pair_world a b)"
    "arrived (w_inbox (pair_world a b) 0) = a" "arrived (w_inbox (pair_world a b) 1) = b" for a b
    by (simp_all add: pair_world_def world_with_def calm_def)
  have "client_inv {} pair_client (pair_world a (greeting sample_opts @ b))"
    using sample_client_inv(1) [of "[]"]
    by (auto simp: client_inv_def client_ok_def owns_def open_conns_def conn_ids_def pair_client_def pair_world_def
        sample_client_def world_with_def)
  moreover have "in_time background w" "swift pair_client (pair_world a b)" for w a b
    by (simp_all add: in_time_never swift_def horizon_def pair_world_def world_with_def pair_client_def sample_opts_def Second_def)
  moreover have "awaits sample_crypto mx k sample_wire (pair_world a b) a" for mx k a b
    using wd by (simp add: awaits_def delivers_def sample_wire_def)
  then have "answers sample_crypto 14 pair_client (pair_world a (greeting sample_opts @ b)) {} [(0, a), (1, b)]"
    using wd by (simp add: answers_def nodes welcomes_def sample_plain split: if_split)
  ultimately show ?thesis by (simp add: conversing_def) (simp add: pair_client_def)
qed

lemma route_stays: "\<forall>h \<in> set hops. snd h = None \<Longrightarrow> fst ` set (route n hops b) \<subseteq> {n}"
  by (induction n hops b rule: route.induct) (auto simp: next_node_def)

text \<open>The world of the TCP example, with a server that answers it.\<close>

lemma example_answers:
  "answers sample_crypto 21 (new_client ps default_opts None)
     (world_dialing (greeting sample_opts @ stream 0 (example_replies i data))) {} ((0, []) # example_replies i data)"
proof -
  have "default_opts = sample_opts" by (simp add: default_opts_def sample_opts_def)
  moreover have "(new_client ps sample_opts None)\<lparr>cl_opts := sample_opts, cl_conns := []\<rparr> = new_client ps sample_opts None"
    by (simp add: new_client_def)
  ultimately show ?thesis
    using fresh_answers [of "example_replies i data" 21 "new_client ps sample_opts None" "[]"] by (simp add: example_replies_def)
qed

text \<open>A library that also answers for rings.\<close>

definition ring_abi :: "lib_store abi" where
  "ring_abi = sample_abi\<lparr>abi_read_ring := (\<lambda>h ra s. (Some (9, ''[]''), s))\<rparr>"

lemma ring_store_contract: "store_contract ring_abi (\<lambda>s. s)"
  using sample_store_contract by (simp add: ring_abi_def store_contract_def put_contract_def)

text \<open>Options with a secret key, and what the server sends for them.\<close>

definition secret_opts :: Options where
  "secret_opts = sample_opts\<lparr>Creds := no_credentials\<lparr>Username := ''u'', Password := ''p'', SecretKey := ''k''\<rparr>\<rparr>"

definition secret_welcome :: "bytes \<Rightarrow> bytes" where
  "secret_welcome b = ''CHAL '' @ hex_encode (replicate 32 NUL) @ LF # ''OK auth'' @ LF #
     sec_frame sample_crypto (transport_key sample_crypto (Creds secret_opts) (hex_encode (replicate 32 NUL)))
       (replicate 24 NUL, greeting_rest secret_opts @ b)"

lemma secret_opts_ok: "options_ok secret_opts" "secret_auth secret_opts"
  by (simp_all add: options_ok_def secret_auth_def secret_opts_def sample_opts_def zero_Options_def no_credentials_def Second_def
      Hour_def maxFrame_def field_ok_def byte_def)

lemma secret_welcomes:
  assumes "length b \<le> 8000"
  shows "welcomes sample_crypto secret_opts 6 0 ((world_with (secret_welcome b))\<lparr>w_rands := replicate 6 (Some [])\<rparr>) b"
proof -
  let ?w = "(world_with (secret_welcome b))\<lparr>w_rands := replicate 6 (Some [])\<rparr>"
  let ?chal = "replicate 32 NUL" and ?key = "transport_key sample_crypto (Creds secret_opts) (hex_encode (replicate 32 NUL))"
  have g: "length (greeting_rest secret_opts) \<le> 40"
    by (simp add: greeting_rest_def secret_opts_def sample_opts_def zero_Options_def)
  have "sealing sample_crypto ?key (MaxFrameBytes secret_opts)"
    using sample_crypto_laws by (simp add: sealing_def secret_opts_def sample_opts_def maxFrame_def)
  moreover have "int (length (greeting_rest secret_opts @ b)) \<le> MaxFrameBytes secret_opts + int maxHeader + 1"
    using assms g by (simp add: secret_opts_def sample_opts_def maxFrame_def maxHeader_def)
  moreover have "arrived (w_inbox ?w 0) = ''CHAL '' @ hex_encode ?chal @ LF # ''OK auth'' @ LF #
      concat (map (sec_frame sample_crypto ?key) [(replicate 24 NUL, greeting_rest secret_opts @ b)]) @ []"
    by (simp add: world_with_def secret_welcome_def)
  moreover have "supplied 6 ?w" by (simp add: supplied_def)
  ultimately show ?thesis
    unfolding welcomes_def using secret_opts_ok(2)
    by (intro if_P [THEN iffD2] conjI exI [of _ ?chal] exI [of _ "[(replicate 24 NUL, greeting_rest secret_opts @ b)]"] exI [of _ "[]"]) simp_all
qed


section \<open>The conformance command\<close>

definition sample_conf_options :: conf_options where
  "sample_conf_options = \<lparr>o_Timeout = 0, o_ReadTimeout = 0, o_WriteTimeout = 0, o_MaxFrameBytes = 0,
     o_MaxRedirects = 0, o_RetryReads = None, o_Username = [], o_Password = [], o_AuthToken = [],
     o_SecretKey = [], o_Galaxy = [], o_TLS = False, o_TLSCaFile = [], o_TLSServerName = [],
     o_TLSInsecureSkipVerify = False\<rparr>"

definition sample_request :: "string \<Rightarrow> conf_request" where
  "sample_request oper = \<lparr>r_Op = oper, r_Ring = [], r_ID = ID_String sample_id, r_Payload = [], r_Codec = [],
     r_Selection = [], r_Peers = [''localhost:7301''], r_Value = [], r_Options = sample_conf_options,
     r_Timeout = 0, r_ReadTimeout = 0, r_WriteTimeout = 0\<rparr>"

definition sample_env :: conf_env where
  "sample_env = \<lparr>e_crypto = sample_crypto, e_load_ca = (\<lambda>_. None), e_wild = (\<lambda>_. 0),
     e_marshal = Some, e_unmarshal = (\<lambda>b d. (None, b))\<rparr>"

lemma serve_emits: "serve E decode (\<lambda>_. True) ls h w = (as, ex, h1, w1) \<Longrightarrow> \<not> ex"
  by (induction ls arbitrary: h w as) (auto simp: Let_def split: prod.splits)

lemma world_dialing_ok: "world_ok (world_dialing bs)"
  by (simp add: world_ok_def world_dialing_def world_with_def)

end
