(* ===== verification/Spec2Isabelle.thy ===== *)
theory Spec2Isabelle
  imports Scenarios
begin

text \<open>
  The KoutenDB Go driver: a native TCP client (package \<open>koutendb\<close>, files \<open>client.go\<close>,
  \<open>wire.go\<close>, \<open>options.go\<close>, \<open>id.go\<close>, \<open>errors.go\<close>), a binding of the C library (package
  \<open>embedded\<close>, file \<open>embedded/db.go\<close>), and a command that serves one client over JSON
  lines (\<open>cmd/conformance/main.go\<close>).

  HOW THE PARTS INTERACT.  \<open>Dial\<close> validates the options (\<open>normalize\<close>) and connects to the
  first peer (\<open>ensure\<close>): it opens a socket, runs TLS when configured, and the handshake of
  the wire (authentication, galaxy, version).  An operation takes the token of the gate,
  gets the connection of a node, and runs one exchange on it: a header line and a body out,
  a header line and possibly a body in, in the clear or in sealed \<open>SEC\<close> frames once a
  transport key was derived.  A read follows \<open>FWD\<close> answers to other nodes and is run a
  second time after a connection failure; a write never is.  A failed operation closes all
  connections of the client; the next one opens them again.  The embedded handle has none
  of this: its methods check their input and hand a job to the one thread that calls the
  library.

  THE ENVIRONMENT.  Everything the driver does not decide is read from a script in the
  state \<open>world\<close> (theory World): the passing of time, the outcome of every dial, TLS
  handshake, deadline call and write (partial writes included), every byte or error that
  arrives on every connection, and the random nonces.  A theorem about all worlds is one
  about all networks, servers, schedules of deadlines and cancellations.  What the driver does
  outside is recorded in histories of the world: addresses dialed, names verified, bytes
  written, deadlines set, sockets closed.  Contexts carry a deadline and the instant and
  cause of their end.

  THEORIES AND FILES.
  Prelude: byte strings, the functions of package \<open>strings\<close>, results.
  Text_Format: the contract of a printer and a parser, as locales.
  Strconv, Float64, Float64_Laws: \<open>strconv\<close> as the driver uses it, on 64-bit patterns;
  shortest formatting and exact parsing of floats, and that they invert each other.
  Errors: \<open>errors.go\<close>.  Ids: \<open>id.go\<close>.  Options: \<open>options.go\<close>.
  World: clocks, contexts, sockets, and \<open>ioError\<close>.
  Wire: reading, decrypting and header lines of \<open>wire.go\<close>, with the locale of a byte source
  that the raw and the decrypted reader both provide.
  Exchange: \<open>exchange\<close> and \<open>handshake\<close> of \<open>wire.go\<close>.
  Exchange_Laws, Handshake_Laws, Context_Laws: what they write, their errors, and that
  context errors are never invented; the locale of a reply reader.
  Client: \<open>client.go\<close>.  Client_Laws: the invariant of a client and of its sockets.
  Operation_Laws: the contract of an operation that may be run again, as a locale, with
  \<open>Health\<close> and \<open>read\<close> as its instances.  Write_Laws: \<open>PutCodec\<close>, \<open>Dial\<close>, \<open>Close\<close>.
  Framing: an independent parser of requests, as a server would have.
  Delivery: what it means for bytes to be on their way, in the clear or in sealed frames, and
  that headers, bodies and exchanges then succeed.  Run_Laws: the handshake and connecting a
  node, against a server that follows the protocol.  Conversation: a client whose nodes will
  give a list of replies (\<open>conversing\<close>); every operation takes its replies off the front.
  Guarded: the contracts of a serialised object (exclusion, sequential history, draining).
  Cancellation: the callback that cancels an exchange, and the deadlines it shares with it.
  Gate: concurrent callers of the TCP client, \<open>lock\<close>, \<open>unlock\<close> and \<open>Close\<close> as steps.
  Embedded, Embedded_Laws: \<open>embedded/db.go\<close> over a library given as the record \<open>abi\<close>; the
  refinement of a record store.
  Worker: the callers, the mutex, the channels and the worker thread of a handle as steps.
  Base64, Conformance, Conformance_Laws: \<open>cmd/conformance/main.go\<close>.
  Examples: \<open>examples/tcp/main.go\<close> and \<open>examples/embedded/main.go\<close>.
  Samples, Scenarios: concrete inputs and runs.  This theory: the properties.

  HOW THE STATE CORRESPONDS.  \<open>Client\<close> is the record \<open>client\<close>; its map of connections is
  an association list with distinct keys whose order stands for the order in which Go
  happens to range over the map.  \<open>wire\<close> is the record \<open>wire\<close>; the pointer that \<open>ensure\<close>
  returns is modelled by writing the wire back into the map after an exchange.  A nil or
  zero \<open>Client\<close> or \<open>DB\<close> is \<open>None\<close>.  A Go error is a value of \<open>go_error\<close>, nil is \<open>None\<close>,
  and a function with a result and an error returns a sum.  Closures (the reader of a reply,
  the operation of \<open>readOperation\<close>, the jobs of the embedded handle) are functions.
  The sequential definitions of a client operation start with \<open>lock\<close>, which stands for
  the checks made once the gate is obtained; the gate itself, with callers that give up
  while they wait, is the step relation \<open>gate_step\<close>, whose requests are the parts between
  \<open>lock\<close> and \<open>unlock\<close> (\<open>put_locked\<close>, \<open>attempts\<close>, \<open>Close\<close>; lemmas \<open>PutCodec_gate\<close>,
  \<open>readOperation_gate\<close>, \<open>Close_gate\<close>).

  In the same way the sequential \<open>exchange\<close> sees the cancellation callback only through the
  errors of writes and reads, and the step relation \<open>xstep\<close> has the two interleave.

  WHEN A SERVER ANSWERS.  The properties of the form "against a server that \<dots>" speak of
  \<open>conversing C cx F c w rs\<close>: the client satisfies its invariant, its context and the time to
  connect outlast the script of the clock (\<open>in_time\<close>, \<open>swift\<close>), and for every node the
  replies of \<open>rs\<close> it is to give are on their way on its connection, or follow its answers to
  a handshake on the connection that will be opened first (\<open>answers\<close>, \<open>welcomes\<close>).  Such bytes
  arrive in the clear or are spread over sealed frames in any way (\<open>delivers\<close>); sealed, they
  have to fit the buffer of the client at once, and there is a nonce for each request, seven
  for each reply, which covers a handshake.

  LOOPS.  All loops of the driver end and are total functions: the header loop is bounded
  by the 8192 bytes of a header, the fill loop by the bytes still to arrive, the write loop
  by the frame, the redirect loop by \<open>MaxRedirects\<close>, the retry loop by two.  There is no
  fuel, except in the shortest formatting of floats, where \<open>short_digits_props\<close> shows that
  the given number of digits always suffices.

  PARAMETERS.  \<open>crypto\<close>: BLAKE2b, secretbox sealing and opening; where a property needs it,
  that opening inverts sealing (\<open>opens\<close>) or that sealing adds 16 bytes (\<open>seal_overhead\<close>);
  \<open>sealing\<close> states both of them and the bound of the buffer.
  \<open>load_ca\<close>: reading a PEM file into a pool.  \<open>marshal\<close>, \<open>unmarshal\<close>, \<open>json_valid\<close>,
  \<open>json_object\<close>: \<open>encoding/json\<close>.  \<open>abi\<close>: the C library, whose code is not in the
  repository; \<open>store_contract\<close> states what its header documents.  \<open>e_wild\<close>: the conversion
  of a float that does not fit an \<open>int64\<close>.

  NOT MODELLED.  The internals of \<open>crypto/tls\<close> beyond which name is verified and whether
  verification is skipped; overwriting of buffers that are not read again; conversion of Go strings to C strings beyond the check
  that they may cross; the text of \<open>log.Fatal\<close>; the tests and the header file.
\<close>

section \<open>Writes\<close>

text \<open>
  C1. A write on an open connection is never replayed: whatever the network, the server, the
  caller's context and the random source do, the bytes written are an initial part of one
  request frame, all of it when the write succeeds, nothing is written on any other
  connection, and no new connection is made.  An error that is neither the server's refusal
  nor reported as an unknown outcome means that nothing was sent at all.
\<close>

theorem put_never_replayed:
  assumes "client_inv F c w" "map_of (cl_conns c) 0 = Some wi" "put_input_ok c ring data cd"
    and "PutCodec C (Some cx) (Some c) ring data cd w = (r, h1, w1)"
  shows "wrote (wi_conn wi) (put_frame C wi ring data cd w) (is_ok r) w w1 \<and> w_dialed w1 = w_dialed w \<and>
    (\<forall>e. r = Inl e \<longrightarrow> indeterminate e \<or> e = ErrServer \<or> e = ErrAuthentication \<or> sent_on w1 = sent_on w)"
  using assms by (rule PutCodec_connected)

lemma put_never_replayed_witness:
  "\<exists>r h1 w1. PutCodec sample_crypto (Some background) (Some sample_client) ''r'' ''hello'' Raw (world_with ''ERR no'') = (r, h1, w1) \<and>
     wrote 0 (''PUTR 1 5 0 raw'' @ LF # ''rhello'') (is_ok r) (world_with ''ERR no'') w1"
proof -
  obtain r h1 w1 where put: "PutCodec sample_crypto (Some background) (Some sample_client) ''r'' ''hello'' Raw (world_with ''ERR no'') = (r, h1, w1)"
    by (rule prod_cases3)
  have "put_frame sample_crypto sample_wire ''r'' ''hello'' Raw (world_with ''ERR no'') = ''PUTR 1 5 0 raw'' @ LF # ''rhello''"
    "wi_conn sample_wire = 0" by code_simp+
  with put_never_replayed [OF sample_client_inv(1) sample_client_simps(2) sample_put_ok(1) put] put show ?thesis
    by metis
qed





text \<open>
  C9. When the node the client writes to answers with an identity, over a connection that is
  there or that it opens first, in the clear or sealed, the write returns exactly this
  identity, and the conversation goes on with the next reply: nothing is left over.
\<close>

theorem put_returns_server_id:
  assumes "conversing C cx F c w ((0, id_reply i) # rs)" "put_input_ok c ring data cd" "ID_valid i"
  shows "\<exists>c1 w1. PutCodec C (Some cx) (Some c) ring data cd w = (Inr i, Some c1, w1) \<and> conversing C cx F c1 w1 rs"
  using PutCodec_conversing [OF assms] by blast

lemma put_returns_server_id_witness:
  "\<exists>c1 w1. PutCodec sample_crypto (Some background) (Some sample_client) ''r'' ''hello'' Raw
     (world_with (stream 0 [(0, id_reply sample_id)])) = (Inr sample_id, Some c1, w1)"
proof -
  have "conversing sample_crypto background {} sample_client (world_with (stream 0 [(0, id_reply sample_id)])) [(0, id_reply sample_id)]"
    by (rule sample_conversing) simp
  from put_returns_server_id [OF this sample_put_ok(1) sample_id_valid] show ?thesis by blast
qed

text \<open>
  C35. A write that the server refuses is reported as refused, with the error of the server and
  not as a write whose outcome is unknown, and the client drops its connections.
\<close>

theorem put_refused:
  assumes "conversing C cx F c w ((0, h @ [LF]) # rs)" "put_input_ok c ring data cd" "refusal_line h"
  shows "\<exists>c1 w1. PutCodec C (Some cx) (Some c) ring data cd w = (Inl ErrServer, Some c1, w1) \<and> cl_conns c1 = []"
  using assms by (rule PutCodec_refused)

lemma put_refused_witness:
  "\<exists>c1 w1. PutCodec sample_crypto (Some background) (Some sample_client) ''r'' ''hello'' Raw
     (world_with (stream 0 [(0, ''ERR full'' @ [LF])])) = (Inl ErrServer, Some c1, w1)"
proof -
  have "conversing sample_crypto background {} sample_client (world_with (stream 0 [(0, ''ERR full'' @ [LF])])) [(0, ''ERR full'' @ [LF])]"
    by (rule sample_conversing) simp
  moreover have "refusal_line ''ERR full''" by code_simp
  ultimately show ?thesis using put_refused [OF _ sample_put_ok(1)] by blast
qed

section \<open>Reads\<close>

text \<open>
  C7. A read follows the redirects of the nodes, to the same node or to another one, which is
  connected first when it is not yet, as long as there are at most \<open>MaxRedirects\<close>, and
  returns what the last one says: exactly the bytes and the codec of a value, whatever the
  bytes are and whichever node it names, or no payload and no error when it says that there
  is none.
\<close>

theorem read_follows_redirects:
  assumes "conversing C cx F c w (route 0 hops b @ rs)" "read_input_ok c i sel"
    and "hops_ok c hops" "int (length hops) \<le> MaxRedirects (cl_opts c)" "outcome_reply c out b"
  shows "\<exists>c1 w1. read_record C (Some cx) (Some c) i sel w = (Inr out, Some c1, w1) \<and> conversing C cx F c1 w1 rs"
  using read_record_conversing [OF assms] by blast

lemma read_follows_redirects_witness:
  "\<exists>c1 w1. read_record sample_crypto (Some background) (Some pair_client) sample_id None
     (pair_world (forward_line sample_id (Some 1) @ [LF]) (greeting sample_opts @ value_line 1 ''a b'' JSON @ LF # ''a b'')) =
   (Inr (Some \<lparr>Data = ''a b'', Codec = JSON\<rparr>), Some c1, w1)"
proof -
  let ?b = "value_line 1 ''a b'' JSON @ LF # ''a b''" and ?hops = "[(sample_id, Some (1 :: int))]"
  have conv: "conversing sample_crypto background {} pair_client
      (pair_world (forward_line sample_id (Some 1) @ [LF]) (greeting sample_opts @ ?b)) (route 0 ?hops ?b @ [])"
    using pair_conversing by (simp add: next_node_def)
  have mn: "max_node pair_client = 1" "cl_opts pair_client = sample_opts" by (simp_all add: max_node_def pair_client_def)
  have ok: "read_input_ok pair_client sample_id None" "hops_ok pair_client ?hops" "int (length ?hops) \<le> MaxRedirects (cl_opts pair_client)"
    using sample_id_valid by (simp_all add: read_input_ok_def hops_ok_def mn) (simp add: sample_opts_def)
  have "outcome_reply pair_client (Some \<lparr>Data = ''a b'', Codec = JSON\<rparr>) ?b"
    by (rule outcome_value) (simp_all add: mn codec_Valid_def sample_opts_def maxFrame_def)
  from read_follows_redirects [OF conv ok this] show ?thesis by blast
qed

text \<open>
  C8. Nodes that redirect a read for ever, in a circle or not, do not keep it: after
  \<open>MaxRedirects\<close> redirects the read fails with a protocol error, is not tried again, and the
  client drops its connections.
\<close>

theorem read_redirects_bounded:
  assumes "conversing C cx F c w (route 0 hops b @ rs)" "read_input_ok c i sel"
    and "hops_ok c hops" "MaxRedirects (cl_opts c) < int (length hops)"
  shows "\<exists>c1 w1. read_record C (Some cx) (Some c) i sel w = (Inl ErrProtocol, Some c1, w1) \<and> cl_conns c1 = []"
  using assms by (rule read_record_endless)

lemma read_redirects_bounded_witness:
  "\<exists>c1 w1. read_record sample_crypto (Some background) (Some sample_client) sample_id None
     (world_with (stream 0 (route 0 (replicate 9 (sample_id, None)) []))) = (Inl ErrProtocol, Some c1, w1)"
proof -
  let ?hops = "replicate 9 (sample_id, None :: int option)"
  have "fst ` set (route 0 ?hops []) \<subseteq> {0}" by (rule route_stays) simp
  from sample_conversing [OF this] have conv: "conversing sample_crypto background {} sample_client
      (world_with (stream 0 (route 0 ?hops []))) (route 0 ?hops [] @ [])" by simp
  have "hops_ok sample_client ?hops" using sample_id_valid by (simp add: hops_ok_def list_all_iff)
  moreover have "MaxRedirects (cl_opts sample_client) < int (length ?hops)" by (simp add: sample_opts_def)
  ultimately show ?thesis using read_redirects_bounded [OF conv sample_read_ok] by blast
qed



section \<open>The client\<close>

text \<open>
  C2. Whatever happens outside, every operation keeps the invariant of the client: its map
  holds exactly its open sockets, one per node, its configuration is unchanged; it dials at
  most once for a write, twice for \<open>Health\<close> and twice per allowed hop for a read; a closed
  client touches no socket; and its errors are the documented ones, \<open>ErrClosed\<close> only on a
  closed client and a context error only when the caller's context is done.
\<close>

theorem operations_keep_client:
  assumes "client_inv F c w"
  shows "call_effect C cx F 1 c w (PutCodec C (Some cx) (Some c) ring data cd w) \<and>
    call_effect C cx F (2 * nat (MaxRedirects (cl_opts c) + 1)) c w (read_record C (Some cx) (Some c) i sel w) \<and>
    call_effect C cx F 2 c w (Health C (Some cx) (Some c) w)"
  using PutCodec_effect [OF assms] read_record_effect [OF assms] Health_effect [OF assms] by blast

lemma operations_keep_client_witness:
  "call_effect sample_crypto background {} 2 sample_client (world_with ''VAL'')
     (Health sample_crypto (Some background) (Some sample_client) (world_with ''VAL''))"
  using operations_keep_client [OF sample_client_inv(1)] by blast

text \<open>
  C5. \<open>Dial\<close> gives a client that owns exactly the socket it opened, or fails and leaves no
  socket open, with a documented error that is a context error only when the context is
  done.
\<close>

theorem dial_leaves_no_socket:
  assumes "world_ok w" "Dial C load_ca (Some cx) peers opts w = (r, w1)"
  shows "case r of
      Inl e \<Rightarrow> open_conns w1 = open_conns w \<and> plain_public e \<and> honest cx w1 e \<and> e \<noteq> ErrClosed
    | Inr c \<Rightarrow> client_inv (open_conns w) c w1 \<and> \<not> cl_closed c \<and> cl_peers c = peers \<and> (\<exists>wi. cl_conns c = [(0, wi)])"
  using assms by (rule Dial_effect)

lemma dial_leaves_no_socket_witness:
  "\<exists>r w1. Dial sample_crypto (\<lambda>_. None) (Some background) [''localhost:7301''] zero_Options (world_dialing ''ERR'') = (r, w1) \<and>
    (\<forall>e. r = Inl e \<longrightarrow> open_conns w1 = open_conns (world_dialing ''ERR''))"
proof -
  obtain r w1 where d: "Dial sample_crypto (\<lambda>_. None) (Some background) [''localhost:7301''] zero_Options (world_dialing ''ERR'') = (r, w1)"
    by fastforce
  from dial_leaves_no_socket [OF world_dialing_ok d] d show ?thesis by (cases r) auto
qed

text \<open>
  C26. \<open>Close\<close> closes every socket of the client and no other, sends and dials nothing, and
  forgets the credentials; the closed client still satisfies the invariant, and closing it
  again changes nothing, in the client or outside.
\<close>

theorem close_releases:
  assumes "client_inv F c w" "Close (Some c) w = (h1, w1)"
  shows "\<exists>c1. h1 = Some c1 \<and> client_inv F c1 w1 \<and> cl_closed c1 \<and> cl_conns c1 = [] \<and>
    Creds (cl_opts c1) = no_credentials \<and> open_conns w1 = F \<and> sent_on w1 = sent_on w \<and> w_dialed w1 = w_dialed w \<and>
    Close h1 w1 = (h1, w1)"
  using Close_effect [OF assms] Close_again [OF assms(2)] by blast

lemma close_releases_witness:
  "\<exists>h1 w1. Close (Some sample_client) (world_with []) = (h1, w1) \<and> open_conns w1 = {}"
proof -
  obtain h1 w1 where c: "Close (Some sample_client) (world_with []) = (h1, w1)" by fastforce
  from close_releases [OF sample_client_inv(1) c] c show ?thesis by blast
qed

text \<open>
  C34. On a closed client every operation fails at the gate, with \<open>ErrClosed\<close> or the error of
  the caller's context, and neither the client nor anything outside but the clock moves.
\<close>

theorem closed_client_inert:
  assumes "cl_closed c" "put_input_ok c ring data cd" "read_input_ok c i sel"
  shows "PutCodec C (Some cx) (Some c) ring data cd w =
      (Inl (case ctx_err_at cx (w_clock (tick w)) of None \<Rightarrow> ErrClosed | Some e \<Rightarrow> e), Some c, tick w) \<and>
    read_record C (Some cx) (Some c) i sel w =
      (Inl (case ctx_err_at cx (w_clock (tick w)) of None \<Rightarrow> ErrClosed | Some e \<Rightarrow> e), Some c, tick w) \<and>
    Health C (Some cx) (Some c) w =
      (Inl (case ctx_err_at cx (w_clock (tick w)) of None \<Rightarrow> ErrClosed | Some e \<Rightarrow> e), Some c, tick w)"
  using closed_inert [OF assms(1)] assms(2,3) by blast

lemma closed_client_inert_witness:
  "PutCodec sample_crypto (Some background) (Some closed_client) ''r'' ''hello'' Raw (world_with []) =
     (Inl ErrClosed, Some closed_client, tick (world_with []))"
proof -
  have "put_input_ok closed_client ''r'' ''hello'' Raw" "read_input_ok closed_client sample_id None"
    using sample_put_ok(2) sample_id_valid by (simp_all add: put_input_ok_def read_input_ok_def closed_client_def)
  from closed_client_inert [OF sample_client_simps(5) this, of sample_crypto background "world_with []"]
  show ?thesis by (simp add: ctx_err_at_def)
qed

section \<open>The wire\<close>



text \<open>
  C12. A sealed frame that arrives is opened to the bytes that were sealed, and exactly the
  frame is consumed, as long as the cipher opens what it seals and adds the 16 bytes it
  documents, and the message fits.
\<close>

theorem sealed_frame_roundtrip:
  assumes "wi_key wi = Some key" "sealing C key mx" "length nonce = 24"
    and "int (length (wi_plain wi)) + int (length m) \<le> mx + int maxHeader + 1"
    and "arrived (w_inbox w (wi_conn wi)) = sec_frame C key (nonce, m) @ rest"
  shows "\<exists>w1. fill C mx wi w = (None, wi\<lparr>wi_plain := wi_plain wi @ m\<rparr>, w1) \<and>
    arrived (w_inbox w1 (wi_conn wi)) = rest"
  using assms by (rule fill_sealed)

lemma sealed_frame_roundtrip_witness:
  "\<exists>w1. fill sample_crypto 100 (sample_wire\<lparr>wi_key := Some []\<rparr>)
     (world_with (sec_frame sample_crypto [] (replicate 24 NUL, ''OK'') @ ''x'')) =
     (None, sample_wire\<lparr>wi_key := Some [], wi_plain := ''OK''\<rparr>, w1) \<and> arrived (w_inbox w1 0) = ''x''"
proof -
  let ?wi = "sample_wire\<lparr>wi_key := Some []\<rparr>" and ?bs = "sec_frame sample_crypto [] (replicate 24 NUL, ''OK'') @ ''x''"
  have k: "wi_key ?wi = Some []" "length (replicate 24 NUL) = 24" "wi_plain ?wi = []" "wi_conn ?wi = 0"
    by (simp_all add: sample_wire_def)
  have se: "sealing sample_crypto [] 100" using sample_crypto_laws by (simp add: sealing_def maxFrame_def)
  have room: "int (length (wi_plain ?wi)) + int (length ''OK'') \<le> 100 + int maxHeader + 1" using k by simp
  have ib: "arrived (w_inbox (world_with ?bs) (wi_conn ?wi)) = ?bs" by (simp add: world_with_def)
  from sealed_frame_roundtrip [OF k(1) se k(2) room ib] k(3,4) show ?thesis by simp
qed

text \<open>
  C10. The bytes of a request determine the request: a parser that knows only the protocol
  reads back ring, payload, codec, identity and selection from what the client writes,
  whatever bytes they contain.
\<close>

theorem request_unambiguous:
  assumes "request_valid r"
  shows "parse_request (request_bytes r) = Some r"
  using assms by (rule parse_request_bytes)

lemma request_unambiguous_witness:
  "parse_request (''PUTR 1 5 0 raw'' @ LF # ''rhello'') = Some (RPut ''r'' ''hello'' Raw)"
proof -
  have "request_valid (RPut ''r'' ''hello'' Raw)" by (simp add: codec_Valid_def)
  moreover have "request_bytes (RPut ''r'' ''hello'' Raw) = ''PUTR 1 5 0 raw'' @ LF # ''rhello''" by code_simp
  ultimately show ?thesis using request_unambiguous by metis
qed

text \<open>
  C29. Against a server that follows the protocol, the handshake of any accepted options
  succeeds, without credentials, with a password or with a secret key; it reads exactly the
  server's answers, sealed ones once the transport key is derived, and what the server
  sends next is what the connection delivers.
\<close>

theorem handshake_succeeds:
  assumes "in_time c w" "options_ok opts" "calm w" "welcomes C opts (6 + k) i w bs"
  shows "\<exists>wi1 w1. handshake C c opts (fresh_wire i) w = (None, wi1, w1) \<and> wi_conn wi1 = i \<and>
    awaits C (MaxFrameBytes opts) k wi1 w1 bs"
  using handshake_welcome [OF assms] by blast

lemma handshake_succeeds_witness:
  "\<exists>wi1 w1. handshake sample_crypto background secret_opts (fresh_wire 0)
      ((world_with (secret_welcome ''x''))\<lparr>w_rands := replicate 6 (Some [])\<rparr>) = (None, wi1, w1) \<and>
     awaits sample_crypto (MaxFrameBytes secret_opts) 0 wi1 w1 ''x''"
proof -
  let ?w = "(world_with (secret_welcome ''x''))\<lparr>w_rands := replicate 6 (Some [])\<rparr>"
  have t: "in_time background ?w" "calm ?w" by (simp_all add: in_time_never calm_def world_with_def)
  have "welcomes sample_crypto secret_opts (6 + 0) 0 ?w ''x''" using secret_welcomes [of "''x''"] by simp
  from handshake_succeeds [OF t(1) secret_opts_ok(1) t(2) this] show ?thesis by blast
qed

text \<open>
  C31. A handshake with accepted options fails only with a context error of its context, a
  timeout, a failed connection, a protocol error, a server or authentication refusal, or a
  version mismatch: its own requests always fit the limits.
\<close>

theorem handshake_errors:
  assumes "handshake C c opts wi w = (Some e, wi1, w1)" "options_ok opts" "seal_overhead C"
  shows "e \<in> {Canceled, DeadlineExceeded, ErrTimeout, ErrConnection, ErrProtocol, ErrServer, ErrAuthentication, ErrVersionMismatch} \<and>
    honest c w1 e"
  using handshake_effect [OF assms(1)] handshake_honest [OF assms(1)] assms(2,3)
  by (auto simp: hs_effect_def hs_class_def io_class_def reply_class_def)

lemma handshake_errors_witness:
  "\<exists>e wi1 w1. handshake sample_crypto background sample_opts sample_wire (world_with (''WIREVER 2'' @ [LF])) = (Some e, wi1, w1) \<and>
     e \<in> {Canceled, DeadlineExceeded, ErrTimeout, ErrConnection, ErrProtocol, ErrServer, ErrAuthentication, ErrVersionMismatch}"
proof -
  obtain x wi1 w1 where h: "handshake sample_crypto background sample_opts sample_wire (world_with (''WIREVER 2'' @ [LF])) = (x, wi1, w1)"
    by (rule prod_cases3)
  have "fst (handshake sample_crypto background sample_opts sample_wire (world_with (''WIREVER 2'' @ [LF]))) = Some ErrVersionMismatch"
    by code_simp
  with h have "handshake sample_crypto background sample_opts sample_wire (world_with (''WIREVER 2'' @ [LF])) = (Some ErrVersionMismatch, wi1, w1)"
    by simp
  from handshake_errors [OF this sample_opts_ok sample_crypto_laws(1)] this show ?thesis by blast
qed





section \<open>Concurrent callers of the client\<close>

text \<open>
  C3. Whatever the interleaving of operations, closings and cancellations, at most one caller
  is past the gate at a time, and the answers given and the resulting client are those of a
  client used by one caller, in the order of the history.
\<close>

theorem gate_linearizable:
  fixes s :: "'a client_gsys"
  assumes "(gate_any client_gate)\<^sup>*\<^sup>* (gsys_init (c, w)) s"
  shows "run_spec (gate_spec client_gate) (c, w) (map fst (g_hist s)) = (map snd (g_hist s), g_state s) \<and>
    (\<forall>i j. holds_token s i \<longrightarrow> holds_token s j \<longrightarrow> i = j)"
  using served.sequential [OF assms] gate.exclusion [OF assms] by (simp add: gsys_init_def)

lemma gate_linearizable_witness:
  "\<exists>s :: ID client_gsys. (gate_any client_gate)\<^sup>*\<^sup>* (gsys_init (sample_client, world_with [])) s \<and> length (g_hist s) = 1 \<and>
     run_spec (gate_spec client_gate) (sample_client, world_with []) (map fst (g_hist s)) = (map snd (g_hist s), g_state s)"
proof -
  let ?j = "locked (put_locked sample_crypto background ''r'' ''hello'' Raw)"
  obtain r b where e: "gs_exec client_gate ?j (sample_client, world_with []) = (r, b)" by (rule prod.exhaust)
  obtain s :: "ID client_gsys" where s: "(gate_any client_gate)\<^sup>*\<^sup>* (gsys_init (sample_client, world_with [])) s" "length (g_hist s) = 1"
    by (rule gate_scenario [OF e, of 0], rule that, assumption, simp_all)
  from gate_linearizable [OF s(1)] s show ?thesis by blast
qed

text \<open>
  C16. With \<open>n\<close> callers, every call returns after at most \<open>6 * n\<close> steps of the client, in any
  order of steps: as long as some call is open some step is possible, whoever has the token
  and whatever contexts are done.
\<close>

theorem gate_calls_end:
  assumes "(gate_any sv)\<^sup>*\<^sup>* (gsys_init a) s" "idle_from n Out (g_callers s)" "(gate_step sv False ^^ k) s t"
  shows "k \<le> 6 * n \<and> ((\<nexists>u. gate_step sv False t u) \<longrightarrow> (\<forall>i. g_callers t i = Out))"
proof -
  have ready: "gate_ready sv n s" using served.reachable_inv [OF assms(1)] assms(2) by (simp add: gate_ready_def)
  from gate_calls.steps_bounded [OF assms(3) ready] gate_calls.stuck_idle [OF assms(3) ready] gate_work_bound [of n s]
  show ?thesis by auto
qed

lemma gate_calls_end_witness:
  "\<exists>s t :: unit client_gsys.
     (gate_any client_gate)\<^sup>*\<^sup>* (gsys_init (sample_client, world_with [])) s \<and> (gate_step client_gate False ^^ 0) s t \<and>
     g_hist s \<noteq> [] \<and> ((\<nexists>u. gate_step client_gate False t u) \<longrightarrow> (\<forall>i. g_callers t i = Out))"
proof -
  let ?j = "(\<lambda>(c, w). (Some (Inr ()), c, w)) :: unit gate_job"
  have e: "gs_exec client_gate ?j (sample_client, world_with []) = (Some (Inr ()), sample_client, world_with [])"
    by (simp add: client_gate_def)
  obtain s :: "unit client_gsys" where s: "(gate_any client_gate)\<^sup>*\<^sup>* (gsys_init (sample_client, world_with [])) s"
    "idle_from (Suc 0) Out (g_callers s)" "g_hist s \<noteq> []"
    by (rule gate_scenario [OF e, of 0], rule that, assumption, simp_all)
  have "(gate_step client_gate False ^^ 0) s s" by simp
  from gate_calls_end [OF s(1,2) this] s this show ?thesis by blast
qed




section \<open>Concurrent callers of the embedded handle\<close>

text \<open>
  C4. Whatever the interleaving of the callers, the mutex, the channel and the worker thread,
  the answers given and the state of the process are those of the methods \<open>call\<close> and \<open>Close\<close>
  run one after the other, in the order of the history, and at most one caller has the mutex.
\<close>

theorem worker_linearizable:
  assumes "(any_step (db_service A raw))\<^sup>*\<^sup>* (wsys_init p) s"
  shows "run_spec (handle_spec A) (\<lparr>db_raw = raw, db_closed = False\<rparr>, p) (map fst (ws_hist s)) =
      (map snd (ws_hist s), as_handle raw (db_abs s)) \<and>
    (\<forall>i j. has_lock s i \<longrightarrow> has_lock s j \<longrightarrow> i = j)"
  using handle.sequential [OF assms, unfolded db_abs_init] handle_spec_run [of A raw "(p, False)" "map fst (ws_hist s)"] mutex.exclusion [OF assms]
  by (simp add: as_handle_def)

lemma worker_linearizable_witness:
  "\<exists>s :: (lib_store, eid) db_sys. (any_step (db_service sample_abi 0))\<^sup>*\<^sup>* (wsys_init empty_store) s \<and> length (ws_hist s) = 1 \<and>
     run_spec (handle_spec sample_abi) (sample_db, empty_store) (map fst (ws_hist s)) = (map snd (ws_hist s), as_handle 0 (db_abs s))"
proof -
  let ?q = "Job (put_job sample_abi ''r'' ''v'' 0 [])"
  obtain s :: "(lib_store, eid) db_sys" where s: "(any_step (db_service sample_abi 0))\<^sup>*\<^sup>* (wsys_init empty_store) s" "length (ws_hist s) = 1"
    by (rule worker_scenario [of "db_service sample_abi 0" empty_store 0 ?q], rule that, assumption, simp_all)
  from worker_linearizable [OF s(1)] s show ?thesis unfolding sample_db_def by blast
qed

text \<open>
  C17. With \<open>n\<close> callers, every call returns after at most \<open>7 * n + 2\<close> steps of callers and
  worker, in any order of steps: no interleaving blocks, with the worker gone after
  \<open>Close\<close> or not.
\<close>

theorem worker_calls_end:
  assumes "(any_step sv)\<^sup>*\<^sup>* (wsys_init p) s" "only_callers n s" "(worker_step sv False ^^ k) s t"
  shows "k \<le> 7 * n + 2 \<and> ((\<nexists>u. worker_step sv False t u) \<longrightarrow> (\<forall>i. ws_callers t i = Away))"
proof -
  have ready: "worker_ready n s" using handle.reachable_inv [OF assms(1)] assms(2) by (simp add: worker_ready_def)
  from calls.steps_bounded [OF assms(3) ready] calls.stuck_idle [OF assms(3) ready] worker_work_bound [of n s]
  show ?thesis by auto
qed

lemma worker_calls_end_witness:
  "\<exists>s t :: (lib_store, unit) db_sys. (any_step (db_service sample_abi 0))\<^sup>*\<^sup>* (wsys_init empty_store) s \<and> ws_hist s \<noteq> [] \<and>
     (worker_step (db_service sample_abi 0) False ^^ 0) s t \<and>
     ((\<nexists>u. worker_step (db_service sample_abi 0) False t u) \<longrightarrow> (\<forall>i. ws_callers t i = Away))"
proof -
  let ?q = "CloseReq :: (lib_store, unit) job wreq"
  obtain s :: "(lib_store, unit) db_sys" where s: "(any_step (db_service sample_abi 0))\<^sup>*\<^sup>* (wsys_init empty_store) s" "ws_hist s \<noteq> []" "only_callers (Suc 0) s"
    by (rule worker_scenario [of "db_service sample_abi 0" empty_store 0 ?q], rule that, assumption, simp_all)
  have "(worker_step (db_service sample_abi 0) False ^^ 0) s s" by simp
  from worker_calls_end [OF s(1,3) this] s this show ?thesis by blast
qed

text \<open>
  C19. Answers are never crossed: the answer a caller leaves with is the newest of the history
  and was given to its own request.
\<close>

theorem worker_answers_own:
  assumes "(any_step sv)\<^sup>*\<^sup>* (wsys_init p) s" "ws_callers s i = Leaving q r"
  shows "ws_hist s \<noteq> [] \<and> last (ws_hist s) = (q, r)"
  using settled_reachable [OF assms(1)] assms(2) by (auto simp: settled_def newest_def)

lemma worker_answers_own_witness:
  "\<exists>s q r. (any_step (db_service sample_abi 0))\<^sup>*\<^sup>* (wsys_init empty_store) s \<and> ws_callers s 3 = Leaving q r \<and>
     q = Job (remove_job sample_abi (fromC store_id)) \<and> last (ws_hist s) = (q, r)"
proof -
  let ?q = "Job (remove_job sample_abi (fromC store_id))"
  obtain s r where s: "(any_step (db_service sample_abi 0))\<^sup>*\<^sup>* (wsys_init empty_store) s" "ws_callers s 3 = Leaving ?q r"
    by (rule worker_scenario [of "db_service sample_abi 0" empty_store 3 ?q], rule that, assumption, assumption)
  from worker_answers_own [OF s] s show ?thesis by blast
qed

section \<open>The embedded binding\<close>










text \<open>
  C38. \<open>ReadRing\<close> calls the library only with arguments in the range of the C types: two
  libraries that agree on those give the same results.
\<close>

theorem ring_args_in_range:
  assumes "\<And>raw ra s. ring_args_ok ra \<Longrightarrow> abi_read_ring A raw ra s = abi_read_ring B raw ra s"
  shows "ReadRing A jo jv h ring ops p = ReadRing B jo jv h ring ops p"
  using assms by (rule ReadRing_args)

lemma ring_args_in_range_witness:
  "ReadRing sample_abi (\<lambda>_. True) (\<lambda>_. True) (Some sample_db) ''r'' \<lparr>Filter = [], Selection = [], Limit = 5, Cursor = [],
      Pagination = False, Page = 0, PageLimit = 0, Sort = [], Descending = False\<rparr> empty_store =
   ReadRing (sample_abi\<lparr>abi_read_ring := (\<lambda>h ra s. (if ra_limit ra < 0 then Some (9, ''x'') else None, s))\<rparr>)
      (\<lambda>_. True) (\<lambda>_. True) (Some sample_db) ''r'' \<lparr>Filter = [], Selection = [], Limit = 5, Cursor = [],
      Pagination = False, Page = 0, PageLimit = 0, Sort = [], Descending = False\<rparr> empty_store"
  by (rule ring_args_in_range) (simp add: sample_abi_def ring_args_ok_def)

section \<open>The example programs\<close>

text \<open>
  C20. The TCP example as a whole: against a server that welcomes it, names an identity and
  returns what was written, all within the five seconds of a connection, the program prints
  that identity and the title it decodes from the very bytes it wrote, and leaves no socket
  open.
\<close>

theorem tcp_example_prints:
  assumes "world_ok w" "peer_ok (example_endpoint env)" "horizon w < w_clock w + 5 * Second"
    and "marshal [(''title'', ''Go TCP example'')] = Some data" "unm data [] = (None, title)" "length data \<le> 1000000"
    and "ID_valid i"
    and "answers C 21 (new_client [example_endpoint env] default_opts None) w {} ((0, []) # example_replies i data)"
  shows "\<exists>w1. tcp_main C load_ca marshal unm env w = (Printed (ID_String i @ '' '' @ title @ [LF]), w1) \<and> open_conns w1 = open_conns w"
  using assms by (rule tcp_main_prints)

lemma tcp_example_prints_witness:
  "\<exists>w1. tcp_main sample_crypto (\<lambda>_. None) (\<lambda>_. Some ''{}'') (\<lambda>b d. (None, ''T'')) []
     (world_dialing (greeting sample_opts @ stream 0 (example_replies sample_id ''{}''))) =
     (Printed (ID_String sample_id @ '' '' @ ''T'' @ [LF]), w1)"
proof -
  let ?w = "world_dialing (greeting sample_opts @ stream 0 (example_replies sample_id ''{}''))"
  have "peer_ok (example_endpoint [])" by code_simp
  moreover have "horizon ?w < w_clock ?w + 5 * Second" by (simp add: horizon_def world_dialing_def world_with_def Second_def)
  ultimately show ?thesis
    using tcp_example_prints [where unm = "\<lambda>b d. (None, ''T'')" and marshal = "\<lambda>_. Some ''{}''" and data = "''{}''" and title = "''T''" and load_ca = "\<lambda>_. None",
        OF world_dialing_ok _ _ refl refl _ sample_id_valid example_answers] by simp blast
qed



section \<open>The conformance command\<close>

text \<open>
  C32. When the command ends normally no socket is left open, whatever requests it served and
  however they failed.
\<close>

theorem conf_leaves_no_socket:
  assumes "world_ok w" "conf_main E decode emit ls scan_err w = (as, 0, w1)"
  shows "open_conns w1 = open_conns w"
  using assms by (rule main_closes)

lemma conf_leaves_no_socket_witness:
  "\<exists>as w1. conf_main sample_env (\<lambda>l. Some (sample_request l)) (\<lambda>_. True) [''connect'', ''health'', ''connect''] False
      (world_dialing (greeting sample_opts)) = (as, 0, w1) \<and>
     open_conns w1 = open_conns (world_dialing (greeting sample_opts))"
proof -
  let ?d = "\<lambda>l. Some (sample_request l)" and ?ls = "[''connect'', ''health'', ''connect'']"
  obtain as ex h w2 where s: "serve sample_env ?d (\<lambda>_. True) ?ls None (world_dialing (greeting sample_opts)) = (as, ex, h, w2)"
    by (rule prod_cases4)
  have "\<not> ex" by (rule serve_emits [OF s])
  then have m: "conf_main sample_env ?d (\<lambda>_. True) ?ls False (world_dialing (greeting sample_opts)) = (as, 0, snd (Close h w2))"
    using s by (simp add: conf_main_def)
  from conf_leaves_no_socket [OF world_dialing_ok m] m show ?thesis by blast
qed

text \<open>
  C33. The command gives the bytes of a stored value, which it may be redirected to, in base64
  with its codec, and the text decodes to exactly these bytes.
\<close>

theorem conf_get_value:
  assumes "r_Op r = ''get''" "r_ID r = ID_String i" "ID_valid i"
    and "conversing (e_crypto E) background F c w (route 0 hops b @ rs)"
    and "hops_ok c hops" "int (length hops) \<le> MaxRedirects (cl_opts c)" "outcome_reply c (Some p) b"
  shows "\<exists>c1 w1. run E r (Some c) w = (Inr (RRecord (b64_encode (Data p)) (Codec p)), Some c1, w1) \<and>
    b64_decode (b64_encode (Data p)) = Some (Data p)"
  using run_get_value [OF assms] b64_decode_encode by blast

lemma conf_get_value_witness:
  "\<exists>c1 w1. run sample_env (sample_request ''get'') (Some sample_client)
     (world_with (stream 0 [(0, value_line 0 ''a b'' JSON @ LF # ''a b'')])) = (Inr (RRecord ''YSBi'' JSON), Some c1, w1)"
proof -
  let ?b = "value_line 0 ''a b'' JSON @ LF # ''a b''"
  have r: "r_Op (sample_request ''get'') = ''get''" "r_ID (sample_request ''get'') = ID_String sample_id"
    by (simp_all add: sample_request_def)
  have "fst ` set [(0 :: int, ?b)] \<subseteq> {0}" by simp
  from sample_conversing [OF this] have conv: "conversing (e_crypto sample_env) background {} sample_client
      (world_with (stream 0 [(0, ?b)])) (route 0 [] ?b @ [])" by (simp add: sample_env_def)
  have h: "hops_ok sample_client []" "int (length ([] :: (ID \<times> int option) list)) \<le> MaxRedirects (cl_opts sample_client)"
    by (simp_all add: hops_ok_def sample_opts_def)
  have "outcome_reply sample_client (Some \<lparr>Data = ''a b'', Codec = JSON\<rparr>) ?b"
    by (rule outcome_value) (simp_all add: codec_Valid_def sample_opts_def maxFrame_def, simp add: max_node_def sample_client_def)
  from conf_get_value [OF r sample_id_valid conv h this] have
    "\<exists>c1 w1. run sample_env (sample_request ''get'') (Some sample_client) (world_with (stream 0 [(0, ?b)])) =
      (Inr (RRecord (b64_encode ''a b'') JSON), Some c1, w1)" by auto
  moreover have "b64_encode ''a b'' = ''YSBi''" by code_simp
  ultimately show ?thesis by simp
qed


section \<open>Identities\<close>

text \<open>
  C11. A valid identity printed by \<open>String\<close> parses back to the same identity: the text is a
  faithful form of all six fields, floats included.
\<close>

theorem id_text_roundtrip: "ID_valid i \<Longrightarrow> ParseID (ID_String i) = Inr i"
  by (rule ParseID_String)

lemma id_text_roundtrip_witness: "ParseID (ID_String sample_id) = Inr sample_id"
  by (rule id_text_roundtrip [OF sample_id_valid])

text \<open>
  C39. What \<open>ParseID\<close> accepts is valid, its canonical text denotes the same identity, fits a
  header line, and survives the change of separators of a request: the fields come back.
\<close>

theorem parsed_id_travels:
  assumes "ParseID s = Inr i"
  shows "ID_valid i \<and> ParseID (ID_String i) = Inr i \<and> length (ID_String i) \<le> 4608 \<and>
    parseFields (split_on SP (replace_all COLON SP (ID_String i))) = Inr i"
proof -
  have v: "ID_valid i" by (rule ParseID_valid [OF assms])
  from ParseID_String [OF v] length_ID_String [OF v] parseFields_fields [OF v] split_spaced_ID [OF v] spaced_ID_String [OF v] v
  show ?thesis by simp
qed

lemma parsed_id_travels_witness:
  "\<exists>i. ParseID ''1:2:3:0x1p-1:5e-1:-0'' = Inr i \<and> ID_valid i \<and> ParseID (ID_String i) = Inr i"
proof -
  have "is_ok (ParseID ''1:2:3:0x1p-1:5e-1:-0'')" by code_simp
  then obtain i where i: "ParseID ''1:2:3:0x1p-1:5e-1:-0'' = Inr i" by (auto simp: is_ok_iff)
  from parsed_id_travels [OF i] i show ?thesis by blast
qed

text \<open>
  C37. A numeric field within a bound has exactly one text, the decimal without sign or
  leading zeros: \<open>bounded\<close> accepts no other.
\<close>

theorem bounded_canonical:
  assumes "0 \<le> m" "m < 2 ^ 63"
  shows "bounded s m = Inr n \<longleftrightarrow> 0 \<le> n \<and> n \<le> m \<and> s = dec (nat n)"
  using assms by (rule bounded_Inr_iff)

lemma bounded_canonical_witness: "bounded ''07'' 63 \<noteq> Inr 7 \<and> bounded ''7'' 63 = Inr 7"
proof -
  have "dec (nat 7) = ''7''" by code_simp
  with bounded_canonical [of 63 "''07''" 7] bounded_canonical [of 63 "''7''" 7] show ?thesis by simp
qed


section \<open>Options\<close>


end
